theory Spec2Isabelle
  imports Complex_Main "HOL-Library.AList"
begin

section \<open>coca: updatable lines on a terminal (src/src/coca.py)\<close>

text \<open>
  The session keeps its bookkeeping in Python integers (modelled as \<open>int\<close>), writes to
  stdout through \<open>print\<close> (modelled as a log of events appended to the field \<open>out\<close>)
  and raises Python exceptions (modelled as values of \<open>error\<close>). Every operation returns
  the outcome together with the session as it is at that moment, so that what an operation
  has already mutated when it raises stays visible. The lock only serialises the calls
  and \<open>sys.stdout.flush()\<close> writes nothing of its own: neither is modelled.
\<close>

subsection \<open>Data model\<close>

text \<open>
  The exceptions: \<open>ZeroDivisionError\<close> from the division by a zero width,
  \<open>KeyError\<close> and \<open>ValueError\<close> from the formatting of a template, and
  \<open>UnknownLine\<close> for the \<open>KeyError\<close> of \<open>self.lines_index[id(line_obj)]\<close> when the
  line is not one of the session.
\<close>

datatype error =
    ZeroDivisionError
  | KeyError string
  | ValueError
  | UnknownLine nat

text \<open>
  What \<open>print\<close> receives. \<open>CursorColumn0\<close> is \<open>ESC[0G\<close>, \<open>CursorDown n\<close> is
  \<open>ESC[nE\<close>, \<open>CursorUp n\<close> is \<open>ESC[nF\<close>, \<open>EraseLine\<close> is \<open>ESC[2K\<close> and
  \<open>PrintLn t\<close> is \<open>print(t)\<close>. Each event is logged together with the value of
  \<open>current_line\<close> at the moment of the call, which is the row the session believes
  the cursor to be on.
\<close>

datatype event =
    CursorColumn0
  | CursorDown int
  | CursorUp int
  | EraseLine
  | PrintLn string

text \<open>
  Keyword arguments are a dictionary from names to values, in insertion order as Python
  keeps it; a value is taken as the string that formatting makes of it. The empty
  dictionary is the empty list.
\<close>

type_synonym kwargs = "(string \<times> string) list"

record line =
  line_id :: nat
  template :: string
  kwargs :: kwargs

record line_entry =
  line_obj :: nat
  entry_text :: string
  line_number :: int
  nb_physical_lines :: int

text \<open>
  The chain of \<open>_LineEntry\<close> objects linked by \<open>next_line_entry\<close> is the list
  \<open>entries\<close>, in creation order; \<open>last_line_entry\<close> is its last element.
  \<open>lines_index\<close> maps \<open>id(line_obj)\<close> to the position of its entry in that list.
\<close>

record session =
  lines_counter :: int
  lines_index :: "nat \<rightharpoonup> nat"
  entries :: "line_entry list"
  current_line :: int
  available_width :: int
  out :: "(int \<times> event) list"

type_synonym 'a outcome = "(error + 'a) \<times> session"

subsection \<open>LinesSession\<close>

definition LinesSession_init :: "int \<Rightarrow> session" where
  "LinesSession_init terminal_width =
     \<lparr> lines_counter = 1,
       lines_index = Map.empty,
       entries = [],
       current_line = 0,
       available_width = terminal_width,
       out = [] \<rparr>"

definition emit :: "event \<Rightarrow> session \<Rightarrow> session" where
  "emit e s = s\<lparr>out := out s @ [(current_line s, e)]\<rparr>"

text \<open>
  \<open>max(1, math.ceil(len(text) / self.available_width))\<close>: true division, which raises
  on a zero width, then the ceiling. The quotient is taken in the reals; Python takes it
  in double precision, which agrees for every length below \<open>2^53\<close>.
\<close>

definition compute_nb_physical_lines :: "session \<Rightarrow> string \<Rightarrow> error + int" where
  "compute_nb_physical_lines s txt =
     (if available_width s = 0 then Inl ZeroDivisionError
      else Inr (max 1 \<lceil>real_of_int (int (length txt)) / real_of_int (available_width s)\<rceil>))"

definition set_cursor_to_line_number :: "int \<Rightarrow> session \<Rightarrow> session" where
  "set_cursor_to_line_number lnum s =
     (let diff = lnum - current_line s;
          s1 = (if diff = 0 then emit CursorColumn0 s
                else emit (if diff > 0 then CursorDown \<bar>diff\<bar> else CursorUp \<bar>diff\<bar>) s)
      in s1\<lparr>current_line := lnum\<rparr>)"

definition erase_at :: "int \<Rightarrow> session \<Rightarrow> session" where
  "erase_at position s = emit EraseLine (set_cursor_to_line_number position s)"

definition print_at_line :: "string \<Rightarrow> int \<Rightarrow> session \<Rightarrow> unit outcome" where
  "print_at_line txt lnum s =
     (case compute_nb_physical_lines s txt of
        Inl e \<Rightarrow> (Inl e, s)
      | Inr size' \<Rightarrow>
          (let s1 = fold erase_at [lnum .. lnum + size' - 1] s;
               s2 = set_cursor_to_line_number lnum s1;
               s3 = emit (PrintLn txt) s2;
               s4 = s3\<lparr>current_line := lnum + size'\<rparr>;
               s5 = s4\<lparr>lines_counter := max (lines_counter s4) (current_line s4 + 1)\<rparr>
           in (Inr (), s5)))"

text \<open>A \<open>for\<close> loop whose body may raise: the first exception ends it.\<close>

primrec for_each :: "('a \<Rightarrow> session \<Rightarrow> unit outcome) \<Rightarrow> 'a list \<Rightarrow> session \<Rightarrow> unit outcome" where
  "for_each body [] s = (Inr (), s)"
| "for_each body (x # xs) s =
     (case body x s of
        (Inl e, s') \<Rightarrow> (Inl e, s')
      | (Inr _, s') \<Rightarrow> for_each body xs s')"

text \<open>\<open>range(self.lines_counter - 1, self.lines_counter + size')\<close> is built once, before the loop.\<close>

definition extend :: "int \<Rightarrow> session \<Rightarrow> unit outcome" where
  "extend size' s =
     for_each (print_at_line []) [lines_counter s - 1 .. lines_counter s + size' - 1] s"

definition truncate :: "session \<Rightarrow> unit outcome" where
  "truncate s =
     (let original_cursor_position = current_line s;
          size_truncation = lines_counter s - current_line s - 1
      in case for_each (print_at_line []) [current_line s .. lines_counter s - 1 - 1] s of
           (Inl e, s1) \<Rightarrow> (Inl e, s1)
         | (Inr _, s1) \<Rightarrow>
             (let s2 = set_cursor_to_line_number original_cursor_position s1
              in (Inr (), s2\<lparr>lines_counter := lines_counter s2 - size_truncation\<rparr>)))"

definition end_session :: "session \<Rightarrow> session" where
  "end_session s = set_cursor_to_line_number (lines_counter s - 1) s"

subsection \<open>Line\<close>

text \<open>
  \<open>str.format\<close> belongs to Python, not to this program: it is the parameter \<open>fmt\<close>
  of everything that renders a line.
\<close>

type_synonym formatter = "string \<Rightarrow> kwargs \<Rightarrow> error + string"

definition Line_text :: "formatter \<Rightarrow> line \<Rightarrow> error + string" where
  "Line_text fmt l = (if kwargs l = [] then Inr (template l) else fmt (template l) (kwargs l))"

text \<open>\<open>dict.update\<close>: a key already present keeps its place, a new one goes to the end.\<close>

definition dict_update :: "kwargs \<Rightarrow> kwargs \<Rightarrow> kwargs" where
  "dict_update d new = fold (\<lambda>(k, v). AList.update k v) new d"

subsection \<open>Creating and updating lines\<close>

text \<open>
  The identity of a new \<open>Line\<close> object is the number of entries created so far: every
  registered \<open>Line\<close> stays referenced by its entry, so \<open>id\<close> never gives a new object
  the identity of a registered one.
\<close>

definition LinesSession_line :: "formatter \<Rightarrow> string \<Rightarrow> kwargs \<Rightarrow> session \<Rightarrow> line outcome" where
  "LinesSession_line fmt tmpl kw s =
     (let line_object = \<lparr> line_id = length (entries s), template = tmpl, kwargs = kw \<rparr>
      in case Line_text fmt line_object of
           Inl e \<Rightarrow> (Inl e, s)
         | Inr txt \<Rightarrow>
             (case compute_nb_physical_lines s txt of
                Inl e \<Rightarrow> (Inl e, s)
              | Inr nb \<Rightarrow>
                  (let entry = \<lparr> line_obj = line_id line_object, entry_text = txt,
                                 line_number = lines_counter s - 1, nb_physical_lines = nb \<rparr>;
                       s1 = s\<lparr>lines_index := (lines_index s)(line_id line_object \<mapsto> length (entries s)),
                              entries := entries s @ [entry]\<rparr>
                   in case extend (nb - 1) s1 of
                        (Inl e, s2) \<Rightarrow> (Inl e, s2)
                      | (Inr _, s2) \<Rightarrow>
                          (case print_at_line txt (line_number entry) s2 of
                             (Inl e, s3) \<Rightarrow> (Inl e, s3)
                           | (Inr _, s3) \<Rightarrow> (Inr line_object, s3)))))"

text \<open>
  The \<open>while\<close> loop of \<open>print_line\<close> over the entries that follow the updated one:
  \<open>js\<close> are their positions, \<open>lnum\<close> is \<open>current_line_number\<close>.
\<close>

primrec reflow :: "nat list \<Rightarrow> int \<Rightarrow> session \<Rightarrow> unit outcome" where
  "reflow [] lnum s = (Inr (), s)"
| "reflow (j # js) lnum s =
     (let s1 = s\<lparr>entries := (entries s)[j := (entries s ! j)\<lparr>line_number := lnum\<rparr>]\<rparr>
      in case print_at_line (entry_text (entries s1 ! j)) lnum s1 of
           (Inl e, s2) \<Rightarrow> (Inl e, s2)
         | (Inr _, s2) \<Rightarrow> reflow js (lnum + nb_physical_lines (entries s2 ! j)) s2)"

definition print_line :: "formatter \<Rightarrow> line \<Rightarrow> session \<Rightarrow> unit outcome" where
  "print_line fmt l s =
     (case lines_index s (line_id l) of
        None \<Rightarrow> (Inl (UnknownLine (line_id l)), s)
      | Some i \<Rightarrow>
          (case Line_text fmt l of
             Inl e \<Rightarrow> (Inl e, s)
           | Inr txt \<Rightarrow>
               (let s1 = s\<lparr>entries := (entries s)[i := (entries s ! i)\<lparr>entry_text := txt\<rparr>]\<rparr>;
                    old_nb = nb_physical_lines (entries s1 ! i)
                in case compute_nb_physical_lines s1 txt of
                     Inl e \<Rightarrow> (Inl e, s1)
                   | Inr new_nb \<Rightarrow>
                       (case (if old_nb < new_nb then extend (new_nb - old_nb) s1 else (Inr (), s1)) of
                          (Inl e, s2) \<Rightarrow> (Inl e, s2)
                        | (Inr _, s2) \<Rightarrow>
                            (case print_at_line txt (line_number (entries s2 ! i)) s2 of
                               (Inl e, s3) \<Rightarrow> (Inl e, s3)
                             | (Inr _, s3) \<Rightarrow>
                                 (case (if old_nb \<noteq> new_nb
                                        then (let s4 = s3\<lparr>entries := (entries s3)[i := (entries s3 ! i)\<lparr>nb_physical_lines := new_nb\<rparr>]\<rparr>
                                              in reflow [Suc i ..< length (entries s4)]
                                                   (line_number (entries s4 ! i) + new_nb) s4)
                                        else (Inr (), s3)) of
                                    (Inl e, s5) \<Rightarrow> (Inl e, s5)
                                  | (Inr _, s5) \<Rightarrow>
                                      (if new_nb < old_nb then truncate s5 else (Inr (), s5))))))))"

definition Line_update :: "formatter \<Rightarrow> string option \<Rightarrow> kwargs \<Rightarrow> line \<Rightarrow> session \<Rightarrow> (error + unit) \<times> line \<times> session" where
  "Line_update fmt tmpl kw l s =
     (let l1 = (case tmpl of None \<Rightarrow> l | Some t \<Rightarrow> l\<lparr>template := t, kwargs := []\<rparr>);
          l2 = l1\<lparr>kwargs := dict_update (kwargs l1) kw\<rparr>;
          (r, s') = print_line fmt l2 s
      in (r, l2, s'))"

subsection \<open>Reading the log\<close>

definition erased_rows :: "(int \<times> event) list \<Rightarrow> int list" where
  "erased_rows evs = map fst (filter (\<lambda>(r, e). e = EraseLine) evs)"

definition printed :: "(int \<times> event) list \<Rightarrow> (int \<times> string) list" where
  "printed evs = concat (map (\<lambda>(r, e). case e of PrintLn t \<Rightarrow> [(r, t)] | _ \<Rightarrow> []) evs)"

subsection \<open>Sequences of calls\<close>

text \<open>
  A caller holds the session and the list of the \<open>Line\<close> objects that \<open>line\<close>
  returned, in the order of their creation, and calls \<open>line\<close> and \<open>Line.update\<close> one after the other.
  An exception leaves the session as it is at the raise (and, for \<open>update\<close>, the
  \<open>Line\<close> with its new template and parameters) and the caller goes on.
\<close>

datatype call = NewLine string kwargs | Update nat "string option" kwargs

type_synonym world = "session \<times> line list"

definition new_world :: "int \<Rightarrow> world" where
  "new_world terminal_width = (LinesSession_init terminal_width, [])"

fun step :: "formatter \<Rightarrow> call \<Rightarrow> world \<Rightarrow> world" where
  "step fmt (NewLine tmpl kw) (s, handles) =
     (case LinesSession_line fmt tmpl kw s of
        (Inl e, s') \<Rightarrow> (s', handles)
      | (Inr l, s') \<Rightarrow> (s', handles @ [l]))"
| "step fmt (Update k tmpl kw) (s, handles) =
     (if k < length handles
      then (case Line_update fmt tmpl kw (handles ! k) s of
              (r, l', s') \<Rightarrow> (s', handles[k := l']))
      else (s, handles))"

definition run :: "formatter \<Rightarrow> call list \<Rightarrow> world \<Rightarrow> world" where
  "run fmt calls w = fold (step fmt) calls w"

text \<open>
  The rows of the entries: each one starts where the one before it ends.
\<close>

fun contiguous :: "line_entry list \<Rightarrow> bool" where
  "contiguous (e1 # e2 # es) =
     (line_number e2 = line_number e1 + nb_physical_lines e1 \<and> contiguous (e2 # es))"
| "contiguous es = True"

text \<open>
  The rows that the loop of \<open>print_line\<close> gives to a chain of entries when it starts
  at the row \<open>r\<close>: each entry is put where the one before it ends.
\<close>

fun laid_out :: "int \<Rightarrow> line_entry list \<Rightarrow> line_entry list" where
  "laid_out r [] = []"
| "laid_out r (e # es) = e\<lparr>line_number := r\<rparr> # laid_out (r + nb_physical_lines e) es"

definition shifted :: "int \<Rightarrow> line_entry \<Rightarrow> line_entry" where
  "shifted d e = e\<lparr>line_number := line_number e + d\<rparr>"

definition rows_and_heights :: "session \<Rightarrow> (int \<times> int) list" where
  "rows_and_heights s = map (\<lambda>e. (line_number e, nb_physical_lines e)) (entries s)"

subsection \<open>A formatter for named placeholders\<close>

text \<open>
  The part of \<open>str.format\<close> that the documentation of \<open>line\<close> relies on, to run the
  model on concrete templates: \<open>{name}\<close> is replaced by the value of \<open>name\<close>, a missing
  name raises \<open>KeyError\<close>, \<open>{{\<close> and \<open>}}\<close> stand for a brace, a brace on its own
  raises \<open>ValueError\<close>. Conversions, format specifications and positional fields are
  left out.
\<close>

fun fmt_scan :: "kwargs \<Rightarrow> string \<Rightarrow> error + string"
  and fmt_field :: "kwargs \<Rightarrow> string \<Rightarrow> string \<Rightarrow> error + string" where
  "fmt_scan kw [] = Inr []"
| "fmt_scan kw [c] =
     (if c = CHR ''{'' \<or> c = CHR ''}'' then Inl ValueError else Inr [c])"
| "fmt_scan kw (c # d # cs) =
     (if c = CHR ''{'' then
        (if d = CHR ''{'' then map_sum id ((#) c) (fmt_scan kw cs) else fmt_field kw [] (d # cs))
      else if c = CHR ''}'' then
        (if d = CHR ''}'' then map_sum id ((#) c) (fmt_scan kw cs) else Inl ValueError)
      else map_sum id ((#) c) (fmt_scan kw (d # cs)))"
| "fmt_field kw name [] = Inl ValueError"
| "fmt_field kw name (c # cs) =
     (if c = CHR ''}'' then
        (case map_of kw name of
           None \<Rightarrow> Inl (KeyError name)
         | Some v \<Rightarrow> map_sum id ((@) v) (fmt_scan kw cs))
      else fmt_field kw (name @ [c]) cs)"

definition format_named :: formatter where
  "format_named tmpl kw = fmt_scan kw tmpl"

text \<open>The session of the test \<open>test_truncate\<close>.\<close>

definition test_truncate_session :: session where
  "test_truncate_session =
     \<lparr> lines_counter = 10, lines_index = Map.empty, entries = [],
       current_line = 7, available_width = 80, out = [] \<rparr>"

text \<open>Two lines of one row each on a terminal of 80 columns, and a line with a parameter.\<close>

definition hello_world :: world where
  "hello_world = run format_named [NewLine ''Hello'' [], NewLine ''World'' []] (new_world 80)"

definition greeting :: world where
  "greeting = run format_named [NewLine ''Hello {name}'' [(''name'', ''Bob'')]] (new_world 80)"

text \<open>A line of 200 characters, which takes three rows of 80 columns, above a short one.\<close>

definition long_and_world :: world where
  "long_and_world
     = run format_named [NewLine (replicate 200 (CHR ''a'')) [], NewLine ''World'' []] (new_world 80)"

subsection \<open>The height of a text, by integer division\<close>

lemma compute_nb_physical_lines_div:
  "compute_nb_physical_lines s txt =
     (if available_width s = 0 then Inl ZeroDivisionError
      else Inr (max 1 (- ((- int (length txt)) div available_width s))))"
proof -
  have "\<lceil>real_of_int (int (length txt)) / real_of_int (available_width s)\<rceil>
          = - ((- int (length txt)) div available_width s)"
    by (rule ceiling_divide_eq_div)
  then show ?thesis
    unfolding compute_nb_physical_lines_def by presburger
qed

subsection \<open>The cursor, the log and the print step\<close>

lemma erased_rows_append [simp]: "erased_rows (xs @ ys) = erased_rows xs @ erased_rows ys"
  by (simp add: erased_rows_def)

lemma printed_append [simp]: "printed (xs @ ys) = printed xs @ printed ys"
  by (simp add: printed_def)

lemma erased_rows_simps [simp]:
  "erased_rows [] = []"
  "erased_rows ((r, EraseLine) # evs) = r # erased_rows evs"
  "erased_rows ((r, CursorColumn0) # evs) = erased_rows evs"
  "erased_rows ((r, CursorDown n) # evs) = erased_rows evs"
  "erased_rows ((r, CursorUp n) # evs) = erased_rows evs"
  "erased_rows ((r, PrintLn t) # evs) = erased_rows evs"
  by (simp_all add: erased_rows_def)

lemma printed_simps [simp]:
  "printed [] = []"
  "printed ((r, EraseLine) # evs) = printed evs"
  "printed ((r, CursorColumn0) # evs) = printed evs"
  "printed ((r, CursorDown n) # evs) = printed evs"
  "printed ((r, CursorUp n) # evs) = printed evs"
  "printed ((r, PrintLn t) # evs) = (r, t) # printed evs"
  by (simp_all add: printed_def)

text \<open>The cursor primitive: only the cursor and the log change.\<close>

lemma set_cursor_fields [simp]:
  "lines_counter (set_cursor_to_line_number n s) = lines_counter s"
  "lines_index (set_cursor_to_line_number n s) = lines_index s"
  "entries (set_cursor_to_line_number n s) = entries s"
  "available_width (set_cursor_to_line_number n s) = available_width s"
  "current_line (set_cursor_to_line_number n s) = n"
  by (simp_all add: set_cursor_to_line_number_def emit_def Let_def)

lemma set_cursor_out:
  "\<exists>e. out (set_cursor_to_line_number n s) = out s @ [(current_line s, e)] \<and> e \<noteq> EraseLine \<and> (\<forall>t. e \<noteq> PrintLn t)"
  by (simp add: set_cursor_to_line_number_def emit_def Let_def)

lemma set_cursor_erased [simp]:
  "erased_rows (out (set_cursor_to_line_number n s)) = erased_rows (out s)"
  by (simp add: set_cursor_to_line_number_def emit_def Let_def)

lemma set_cursor_printed [simp]:
  "printed (out (set_cursor_to_line_number n s)) = printed (out s)"
  by (simp add: set_cursor_to_line_number_def emit_def Let_def)

lemma erase_at_fields [simp]:
  "lines_counter (erase_at n s) = lines_counter s"
  "lines_index (erase_at n s) = lines_index s"
  "entries (erase_at n s) = entries s"
  "available_width (erase_at n s) = available_width s"
  "current_line (erase_at n s) = n"
  "erased_rows (out (erase_at n s)) = erased_rows (out s) @ [n]"
  "printed (out (erase_at n s)) = printed (out s)"
  by (simp_all add: erase_at_def emit_def)

lemma fold_erase_at_fields [simp]:
  "lines_counter (fold erase_at ps s) = lines_counter s"
  "lines_index (fold erase_at ps s) = lines_index s"
  "entries (fold erase_at ps s) = entries s"
  "available_width (fold erase_at ps s) = available_width s"
  "erased_rows (out (fold erase_at ps s)) = erased_rows (out s) @ ps"
  "printed (out (fold erase_at ps s)) = printed (out s)"
  by (induction ps arbitrary: s; simp)+

lemma fold_erase_at_out:
  "\<exists>evs. out (fold erase_at ps s) = out s @ evs \<and> printed evs = [] \<and> erased_rows evs = ps"
proof (induction ps arbitrary: s)
  case Nil
  show ?case by simp
next
  case (Cons p ps)
  obtain e where e: "out (set_cursor_to_line_number p s) = out s @ [(current_line s, e)]"
    "e \<noteq> EraseLine" "\<forall>t. e \<noteq> PrintLn t"
    using set_cursor_out by blast
  from Cons.IH [of "erase_at p s"] obtain evs where
    evs: "out (fold erase_at ps (erase_at p s)) = out (erase_at p s) @ evs"
      "printed evs = []" "erased_rows evs = ps" by blast
  have "out (erase_at p s) = out s @ [(current_line s, e), (p, EraseLine)]"
    using e(1) by (simp add: erase_at_def emit_def)
  moreover have "printed ((current_line s, e) # (p, EraseLine) # evs) = printed evs"
    "erased_rows ((current_line s, e) # (p, EraseLine) # evs) = p # erased_rows evs"
    using e(2,3) by (cases e; simp)+
  ultimately show ?case using evs
    by (intro exI [of _ "[(current_line s, e), (p, EraseLine)] @ evs"]) simp
qed

text \<open>Printing at a row.\<close>

lemma print_at_line_zero_width:
  "available_width s = 0 \<Longrightarrow> print_at_line txt n s = (Inl ZeroDivisionError, s)"
  by (simp add: print_at_line_def compute_nb_physical_lines_def)

lemma print_at_line_ok:
  assumes "compute_nb_physical_lines s txt = Inr h"
  shows "fst (print_at_line txt n s) = Inr ()"
    and "lines_counter (snd (print_at_line txt n s)) = max (lines_counter s) (n + h + 1)"
    and "current_line (snd (print_at_line txt n s)) = n + h"
    and "lines_index (snd (print_at_line txt n s)) = lines_index s"
    and "entries (snd (print_at_line txt n s)) = entries s"
    and "available_width (snd (print_at_line txt n s)) = available_width s"
    and "erased_rows (out (snd (print_at_line txt n s))) = erased_rows (out s) @ [n .. n + h - 1]"
    and "printed (out (snd (print_at_line txt n s))) = printed (out s) @ [(n, txt)]"
  using assms by (simp_all add: print_at_line_def Let_def emit_def)

subsection \<open>The height of a text is the ceiling of the quotient\<close>

lemma ceiling_div_bounds:
  fixes L W :: int
  assumes "1 \<le> W" "0 \<le> L"
  shows "L \<le> \<lceil>real_of_int L / real_of_int W\<rceil> * W"
    and "(\<lceil>real_of_int L / real_of_int W\<rceil> - 1) * W < max 1 L"
proof -
  let ?c = "\<lceil>real_of_int L / real_of_int W\<rceil>"
  have W: "0 < real_of_int W" using assms by simp
  have "real_of_int L / real_of_int W \<le> real_of_int ?c" by (rule le_of_int_ceiling)
  then have "real_of_int L / real_of_int W * real_of_int W \<le> real_of_int ?c * real_of_int W"
    using W by (intro mult_right_mono) simp_all
  then have "real_of_int L \<le> real_of_int ?c * real_of_int W"
    using W by simp
  then have "real_of_int L \<le> real_of_int (?c * W)" by simp
  then show "L \<le> ?c * W" by (simp only: of_int_le_iff)
  have "real_of_int ?c - 1 < real_of_int L / real_of_int W"
    using ceiling_correct [of "real_of_int L / real_of_int W"] by linarith
  then have "(real_of_int ?c - 1) * real_of_int W < real_of_int L / real_of_int W * real_of_int W"
    using W by (intro mult_strict_right_mono) simp_all
  then have "(real_of_int ?c - 1) * real_of_int W < real_of_int L"
    using W by simp
  then have "real_of_int ((?c - 1) * W) < real_of_int L" by simp
  then have "(?c - 1) * W < L" by (simp only: of_int_less_iff)
  then show "(?c - 1) * W < max 1 L" by simp
qed

text \<open>
  Claim C2. For every text of length \<open>L\<close> and every terminal width \<open>W \<ge> 1\<close>, the height
  computed for the text is \<open>max 1 \<lceil>L / W\<rceil>\<close>: no error is raised, the height of the empty
  text is 1, and the height \<open>h\<close> is at least 1 and is the least number of rows of \<open>W\<close>
  columns that hold \<open>L\<close> characters (\<open>L \<le> h * W\<close> and \<open>(h - 1) * W < max 1 L\<close>).
\<close>

theorem compute_nb_physical_lines_is_ceiling:
  assumes "1 \<le> available_width s"
  shows "compute_nb_physical_lines s txt
           = Inr (max 1 \<lceil>real (length txt) / real_of_int (available_width s)\<rceil>)
         \<and> compute_nb_physical_lines s [] = Inr 1
         \<and> (\<exists>h. compute_nb_physical_lines s txt = Inr h \<and> 1 \<le> h
                \<and> int (length txt) \<le> h * available_width s
                \<and> (h - 1) * available_width s < max 1 (int (length txt)))"
proof -
  let ?W = "available_width s" and ?L = "int (length txt)"
  let ?c = "\<lceil>real_of_int ?L / real_of_int ?W\<rceil>"
  have nz: "?W \<noteq> 0" using assms by simp
  have c: "compute_nb_physical_lines s txt = Inr (max 1 ?c)"
    using nz by (simp add: compute_nb_physical_lines_def)
  have e: "compute_nb_physical_lines s [] = Inr 1"
    using nz by (simp add: compute_nb_physical_lines_def)
  have up: "?L \<le> ?c * ?W" and low: "(?c - 1) * ?W < max 1 ?L"
    using ceiling_div_bounds [OF assms, of ?L] by simp_all
  define h where "h = max 1 ?c"
  have h1: "1 \<le> h" by (simp add: h_def)
  have hc: "compute_nb_physical_lines s txt = Inr h" using c by (simp only: h_def)
  have "?c * ?W \<le> h * ?W" using assms by (intro mult_right_mono) (simp_all add: h_def)
  with up have hu: "?L \<le> h * ?W" by linarith
  have hl: "(h - 1) * ?W < max 1 ?L"
  proof (cases "1 \<le> ?c")
    case True
    then have "h = ?c" by (simp add: h_def)
    then show ?thesis using low by (simp only:)
  next
    case False
    then have "h = 1" by (simp add: h_def)
    then show ?thesis by simp
  qed
  have c': "compute_nb_physical_lines s txt
           = Inr (max 1 \<lceil>real (length txt) / real_of_int ?W\<rceil>)"
    using nz by (simp add: compute_nb_physical_lines_def)
  from h1 hc hu hl have "\<exists>h. compute_nb_physical_lines s txt = Inr h \<and> 1 \<le> h
                \<and> ?L \<le> h * ?W \<and> (h - 1) * ?W < max 1 ?L"
    by blast
  with c' e show ?thesis by blast
qed

theorem compute_nb_physical_lines_is_ceiling_witness:
  "1 \<le> available_width (LinesSession_init 2)
   \<and> compute_nb_physical_lines (LinesSession_init 2) ''aaa'' = Inr 2
   \<and> compute_nb_physical_lines (LinesSession_init 2) [] = Inr 1"
  using compute_nb_physical_lines_is_ceiling [of "LinesSession_init 2" "''aaa''"]
  by (simp add: LinesSession_init_def)

subsection \<open>Loops of blank lines\<close>

lemma compute_blank:
  "available_width s \<noteq> 0 \<Longrightarrow> compute_nb_physical_lines s [] = Inr 1"
  by (simp add: compute_nb_physical_lines_def)

lemma for_each_Cons_ok:
  "fst (body x s) = Inr u \<Longrightarrow> for_each body (x # xs) s = for_each body xs (snd (body x s))"
  by (cases "body x s") auto

lemma fold_max_upto:
  "fold (\<lambda>r c. max c (r + 2)) [a .. b] (c::int) = (if a \<le> b then max c (b + 2) else c)"
proof (induction a b arbitrary: c rule: upto.induct)
  case (1 i j)
  show ?case
  proof (cases "i \<le> j")
    case True
    then have "[i .. j] = i # [i + 1 .. j]" by (simp add: upto_rec1)
    then show ?thesis using True "1.IH" [OF True, of "max c (i + 2)"] by auto
  next
    case False
    then show ?thesis by simp
  qed
qed

lemma print_blank:
  assumes "available_width s \<noteq> 0"
  shows "fst (print_at_line [] r s) = Inr ()"
    and "lines_counter (snd (print_at_line [] r s)) = max (lines_counter s) (r + 2)"
    and "current_line (snd (print_at_line [] r s)) = r + 1"
    and "lines_index (snd (print_at_line [] r s)) = lines_index s"
    and "entries (snd (print_at_line [] r s)) = entries s"
    and "available_width (snd (print_at_line [] r s)) = available_width s"
    and "erased_rows (out (snd (print_at_line [] r s))) = erased_rows (out s) @ [r]"
    and "printed (out (snd (print_at_line [] r s))) = printed (out s) @ [(r, [])]"
  using print_at_line_ok [OF compute_blank [OF assms], of r] by simp_all

lemma for_each_blank_Cons:
  assumes "available_width s \<noteq> 0"
  shows "for_each (print_at_line []) (r # rows) s
           = for_each (print_at_line []) rows (snd (print_at_line [] r s))"
  using for_each_Cons_ok [of "print_at_line []" r s "()" rows] print_blank(1) [OF assms]
  by simp

lemma for_each_blank_fst:
  "available_width s \<noteq> 0 \<Longrightarrow> fst (for_each (print_at_line []) rows s) = Inr ()"
  by (induction rows arbitrary: s) (simp_all add: for_each_blank_Cons print_blank del: for_each.simps(2))

lemma for_each_blank_frame:
  assumes "available_width s \<noteq> 0"
  shows "lines_index (snd (for_each (print_at_line []) rows s)) = lines_index s"
    and "entries (snd (for_each (print_at_line []) rows s)) = entries s"
    and "available_width (snd (for_each (print_at_line []) rows s)) = available_width s"
  using assms
  by (induction rows arbitrary: s; simp add: for_each_blank_Cons print_blank del: for_each.simps(2))+

lemma for_each_blank_cursor:
  "available_width s \<noteq> 0 \<Longrightarrow>
   current_line (snd (for_each (print_at_line []) rows s))
     = (if rows = [] then current_line s else last rows + 1)"
  by (induction rows arbitrary: s) (simp_all add: for_each_blank_Cons print_blank del: for_each.simps(2))

lemma for_each_blank_counter:
  "available_width s \<noteq> 0 \<Longrightarrow>
   lines_counter (snd (for_each (print_at_line []) rows s))
     = fold (\<lambda>r c. max c (r + 2)) rows (lines_counter s)"
  by (induction rows arbitrary: s) (simp_all add: for_each_blank_Cons print_blank del: for_each.simps(2))

lemma for_each_blank_log:
  assumes "available_width s \<noteq> 0"
  shows "erased_rows (out (snd (for_each (print_at_line []) rows s))) = erased_rows (out s) @ rows"
    and "printed (out (snd (for_each (print_at_line []) rows s)))
           = printed (out s) @ map (\<lambda>r. (r, [])) rows"
  using assms
  by (induction rows arbitrary: s; simp add: for_each_blank_Cons print_blank del: for_each.simps(2))+

subsection \<open>Extending and truncating the canvas\<close>

lemma last_upto: "a \<le> b \<Longrightarrow> last [a .. b] = b"
  by (simp add: upto_rec2)

lemma extend_ok:
  assumes "available_width s \<noteq> 0"
  shows "fst (extend n s) = Inr ()"
    and "lines_index (snd (extend n s)) = lines_index s"
    and "entries (snd (extend n s)) = entries s"
    and "available_width (snd (extend n s)) = available_width s"
    and "0 \<le> n \<Longrightarrow> lines_counter (snd (extend n s)) = lines_counter s + n + 1"
    and "0 \<le> n \<Longrightarrow> current_line (snd (extend n s)) = lines_counter s + n"
    and "erased_rows (out (snd (extend n s)))
           = erased_rows (out s) @ [lines_counter s - 1 .. lines_counter s + n - 1]"
    and "printed (out (snd (extend n s)))
           = printed (out s) @ map (\<lambda>r. (r, [])) [lines_counter s - 1 .. lines_counter s + n - 1]"
  using assms
  by (simp_all add: extend_def for_each_blank_fst for_each_blank_frame for_each_blank_cursor
      for_each_blank_counter for_each_blank_log fold_max_upto last_upto)

lemma truncate_ok:
  assumes "available_width s \<noteq> 0"
  shows "fst (truncate s) = Inr ()"
    and "lines_index (snd (truncate s)) = lines_index s"
    and "entries (snd (truncate s)) = entries s"
    and "available_width (snd (truncate s)) = available_width s"
    and "current_line (snd (truncate s)) = current_line s"
    and "current_line s < lines_counter s \<Longrightarrow> lines_counter (snd (truncate s)) = current_line s + 1"
    and "erased_rows (out (snd (truncate s)))
           = erased_rows (out s) @ [current_line s .. lines_counter s - 2]"
    and "printed (out (snd (truncate s)))
           = printed (out s) @ map (\<lambda>r. (r, [])) [current_line s .. lines_counter s - 2]"
proof -
  let ?rows = "[current_line s .. lines_counter s - 2]"
  obtain s1 where r: "for_each (print_at_line []) ?rows s = (Inr (), s1)"
    using for_each_blank_fst [OF assms, of ?rows]
    by (cases "for_each (print_at_line []) ?rows s") auto
  then have s1: "snd (for_each (print_at_line []) ?rows s) = s1" by simp
  have t: "truncate s = (Inr (), (set_cursor_to_line_number (current_line s) s1)
             \<lparr>lines_counter := lines_counter s1 - (lines_counter s - current_line s - 1)\<rparr>)"
    using r by (simp add: truncate_def Let_def)
  note fe = for_each_blank_frame [OF assms, of ?rows, unfolded s1]
    for_each_blank_log [OF assms, of ?rows, unfolded s1]
    for_each_blank_counter [OF assms, of ?rows, unfolded s1]
  show "fst (truncate s) = Inr ()" by (simp add: t)
  show "lines_index (snd (truncate s)) = lines_index s" by (simp add: t fe)
  show "entries (snd (truncate s)) = entries s" by (simp add: t fe)
  show "available_width (snd (truncate s)) = available_width s" by (simp add: t fe)
  show "current_line (snd (truncate s)) = current_line s" by (simp add: t)
  show "erased_rows (out (snd (truncate s)))
           = erased_rows (out s) @ [current_line s .. lines_counter s - 2]"
    by (simp add: t fe)
  show "printed (out (snd (truncate s)))
           = printed (out s) @ map (\<lambda>r. (r, [])) [current_line s .. lines_counter s - 2]"
    by (simp add: t fe)
  show "lines_counter (snd (truncate s)) = current_line s + 1" if "current_line s < lines_counter s"
    using that by (simp add: t fe fold_max_upto)
qed

subsection \<open>What truncating and extending do\<close>

text \<open>
  Claim C5, amended. When \<open>_truncate\<close> runs with the cursor on a row of the canvas, it
  erases the rows from the cursor row up to the row \<open>lines_counter - 2\<close>, leaving the last
  row \<open>lines_counter - 1\<close> alone, puts the cursor back on the row it started from, and
  lowers \<open>lines_counter\<close> by the number of rows it erased.
\<close>

theorem truncate_erases_all_but_last_row:
  assumes "available_width s \<noteq> 0" and "current_line s < lines_counter s"
  shows "\<exists>s'. truncate s = (Inr (), s')
           \<and> erased_rows (out s') = erased_rows (out s) @ [current_line s .. lines_counter s - 2]
           \<and> current_line s' = current_line s
           \<and> lines_counter s' = lines_counter s - int (length [current_line s .. lines_counter s - 2])
           \<and> entries s' = entries s"
proof -
  note t = truncate_ok [OF assms(1)]
  have "truncate s = (Inr (), snd (truncate s))"
    using t(1) by (metis prod.collapse)
  moreover have "lines_counter (snd (truncate s))
      = lines_counter s - int (length [current_line s .. lines_counter s - 2])"
    using t(6) [OF assms(2)] assms(2) by simp
  ultimately show ?thesis using t(3,5,7) by blast
qed

theorem truncate_erases_all_but_last_row_witness:
  "available_width test_truncate_session \<noteq> 0
   \<and> current_line test_truncate_session < lines_counter test_truncate_session
   \<and> (\<exists>s'. truncate test_truncate_session = (Inr (), s')
          \<and> erased_rows (out s') = [7, 8] \<and> current_line s' = 7 \<and> lines_counter s' = 8
          \<and> entries s' = [])"
  using truncate_erases_all_but_last_row [of test_truncate_session]
  by (simp add: test_truncate_session_def)

theorem truncate_leaves_last_row_counterexample:
  "erased_rows (out (snd (truncate test_truncate_session))) = [7, 8]
   \<and> lines_counter test_truncate_session - 1 \<notin> set (erased_rows (out (snd (truncate test_truncate_session))))"
  by code_simp

text \<open>
  Claim C6. \<open>_extend(n)\<close> is meant to add \<open>n\<close> rows. Called with 2 on a new session it
  prints three empty lines, on the rows 0, 1 and 2, and \<open>lines_counter\<close> grows by 3;
  called with 0 it prints one empty line and \<open>lines_counter\<close> grows by 1.
\<close>

theorem extend_adds_one_row_too_many:
  "printed (out (snd (extend 2 (LinesSession_init 80)))) = [(0, []), (1, []), (2, [])]
   \<and> lines_counter (snd (extend 2 (LinesSession_init 80))) = lines_counter (LinesSession_init 80) + 3
   \<and> printed (out (snd (extend 0 (LinesSession_init 80)))) = [(0, [])]
   \<and> lines_counter (snd (extend 0 (LinesSession_init 80))) = lines_counter (LinesSession_init 80) + 1"
  by code_simp

lemma print_at_line_eq:
  "compute_nb_physical_lines s txt = Inr h \<Longrightarrow>
   print_at_line txt r s = (Inr (), snd (print_at_line txt r s))"
  by (simp add: print_at_line_def Let_def)

subsection \<open>Updating a line without changing its height\<close>

lemma compute_nb_physical_lines_width:
  "available_width s' = available_width s \<Longrightarrow>
   compute_nb_physical_lines s' txt = compute_nb_physical_lines s txt"
  by (simp add: compute_nb_physical_lines_def)

lemma print_line_same_height:
  assumes idx: "lines_index s (line_id l) = Some i" and i: "i < length (entries s)"
    and tx: "Line_text fmt l = Inr txt"
    and h: "compute_nb_physical_lines s txt = Inr (nb_physical_lines (entries s ! i))"
  shows "print_line fmt l s
           = print_at_line txt (line_number (entries s ! i))
               (s\<lparr>entries := (entries s)[i := (entries s ! i)\<lparr>entry_text := txt\<rparr>]\<rparr>)"
proof -
  let ?s1 = "s\<lparr>entries := (entries s)[i := (entries s ! i)\<lparr>entry_text := txt\<rparr>]\<rparr>"
  have c: "compute_nb_physical_lines ?s1 txt = Inr (nb_physical_lines (entries s ! i))"
    using h compute_nb_physical_lines_width [of ?s1 s "txt"] by simp
  have p: "print_at_line txt (line_number (entries s ! i)) ?s1
             = (Inr (), snd (print_at_line txt (line_number (entries s ! i)) ?s1))"
    using c by (rule print_at_line_eq)
  show ?thesis
    unfolding print_line_def using idx i tx c
    by (simp add: Let_def) (subst p, simp, rule p [symmetric])
qed

text \<open>
  Claim C4. When \<open>update\<close> renders a registered line to a text whose height is the height
  the entry already has, the call succeeds, the only text written is the new text, at the
  row of that entry, the only rows erased are the rows of that entry, and every other
  entry keeps its row, its height and its stored text: the entries are the old ones with
  the text of the updated one replaced.
\<close>

theorem update_same_height_reprints_one_line:
  assumes "Line_update fmt tmpl kw l s = (r, l', s')"
    and "lines_index s (line_id l) = Some i" and "i < length (entries s)"
    and "Line_text fmt l' = Inr txt"
    and "compute_nb_physical_lines s txt = Inr (nb_physical_lines (entries s ! i))"
  shows "r = Inr ()
         \<and> entries s' = (entries s)[i := (entries s ! i)\<lparr>entry_text := txt\<rparr>]
         \<and> (\<forall>j < length (entries s). j \<noteq> i \<longrightarrow> entries s' ! j = entries s ! j)
         \<and> line_number (entries s' ! i) = line_number (entries s ! i)
         \<and> nb_physical_lines (entries s' ! i) = nb_physical_lines (entries s ! i)
         \<and> printed (out s') = printed (out s) @ [(line_number (entries s ! i), txt)]
         \<and> erased_rows (out s') = erased_rows (out s)
              @ [line_number (entries s ! i)
                   .. line_number (entries s ! i) + nb_physical_lines (entries s ! i) - 1]
         \<and> lines_index s' = lines_index s"
proof -
  let ?s1 = "s\<lparr>entries := (entries s)[i := (entries s ! i)\<lparr>entry_text := txt\<rparr>]\<rparr>"
  let ?row = "line_number (entries s ! i)"
  have l': "l' = (case tmpl of None \<Rightarrow> l | Some t \<Rightarrow> l\<lparr>template := t, kwargs := []\<rparr>)
               \<lparr>kwargs := dict_update (kwargs (case tmpl of None \<Rightarrow> l | Some t \<Rightarrow> l\<lparr>template := t, kwargs := []\<rparr>)) kw\<rparr>"
    and rs: "print_line fmt l' s = (r, s')"
    using assms(1) by (auto simp: Line_update_def Let_def split: prod.splits)
  have id: "line_id l' = line_id l" using l' by (cases tmpl) simp_all
  have pl: "print_line fmt l' s = print_at_line txt ?row ?s1"
    using assms(2-5) id by (intro print_line_same_height) simp_all
  have c: "compute_nb_physical_lines ?s1 txt = Inr (nb_physical_lines (entries s ! i))"
    using assms(5) compute_nb_physical_lines_width [of ?s1 s "txt"] by simp
  note ok = print_at_line_ok [OF c, of ?row]
  have r: "r = Inr ()" and s': "s' = snd (print_at_line txt ?row ?s1)"
    using rs pl ok(1) by (metis fst_conv, metis snd_conv)
  have e: "entries s' = (entries s)[i := (entries s ! i)\<lparr>entry_text := txt\<rparr>]"
    using ok(5) s' by simp
  show ?thesis
    using r e assms(3) ok(4,7,8) s' by simp
qed

theorem update_same_height_reprints_one_line_witness:
  "lines_index (fst hello_world) (line_id (snd hello_world ! 0)) = Some 0
   \<and> 0 < length (entries (fst hello_world))
   \<and> Line_text format_named
        (fst (snd (Line_update format_named (Some ''Howdy'') [] (snd hello_world ! 0) (fst hello_world))))
        = Inr ''Howdy''
   \<and> compute_nb_physical_lines (fst hello_world) ''Howdy''
        = Inr (nb_physical_lines (entries (fst hello_world) ! 0))
   \<and> fst (Line_update format_named (Some ''Howdy'') [] (snd hello_world ! 0) (fst hello_world)) = Inr ()
   \<and> entries (snd (snd (Line_update format_named (Some ''Howdy'') [] (snd hello_world ! 0) (fst hello_world))))
        = [\<lparr>line_obj = 0, entry_text = ''Howdy'', line_number = 0, nb_physical_lines = 1\<rparr>,
           \<lparr>line_obj = 1, entry_text = ''World'', line_number = 1, nb_physical_lines = 1\<rparr>]"
proof -
  let ?s = "fst hello_world" and ?l = "snd hello_world ! 0"
  let ?u = "Line_update format_named (Some ''Howdy'') [] ?l ?s"
  have h0: "?u = (fst ?u, fst (snd ?u), snd (snd ?u))" by simp
  have h1: "lines_index ?s (line_id ?l) = Some 0" by code_simp
  have h2: "0 < length (entries ?s)" by code_simp
  have h3: "Line_text format_named (fst (snd ?u)) = Inr ''Howdy''" by code_simp
  have h4: "compute_nb_physical_lines ?s ''Howdy'' = Inr (nb_physical_lines (entries ?s ! 0))"
    by code_simp
  have e: "entries ?s
      = [\<lparr>line_obj = 0, entry_text = ''Hello'', line_number = 0, nb_physical_lines = 1\<rparr>,
         \<lparr>line_obj = 1, entry_text = ''World'', line_number = 1, nb_physical_lines = 1\<rparr>]"
    by code_simp
  note th = update_same_height_reprints_one_line [OF h0 h1 h2 h3 h4]
  from th have "fst ?u = Inr ()"
    and "entries (snd (snd ?u)) = (entries ?s)[0 := (entries ?s ! 0)\<lparr>entry_text := ''Howdy''\<rparr>]"
    by blast+
  then show ?thesis using h1 h2 h3 h4 e by simp
qed

subsection \<open>Templates and parameters of a line\<close>

lemma AList_update_fresh:
  "k \<notin> fst ` set d \<Longrightarrow> AList.update k v d = d @ [(k, v)]"
  by (induction d) auto

lemma dict_update_distinct:
  "distinct (map fst new) \<Longrightarrow> fst ` set new \<inter> fst ` set d = {} \<Longrightarrow> dict_update d new = d @ new"
proof (induction new arbitrary: d)
  case Nil
  show ?case by (simp add: dict_update_def)
next
  case (Cons p new)
  obtain k v where p: "p = (k, v)" by (cases p)
  have k: "k \<notin> fst ` set d" using Cons.prems(2) p by auto
  have "dict_update d (p # new) = dict_update (d @ [(k, v)]) new"
    using k p by (simp add: dict_update_def AList_update_fresh)
  also have "\<dots> = (d @ [(k, v)]) @ new"
    using Cons.prems p by (intro Cons.IH) auto
  finally show ?case using p by simp
qed

text \<open>
  Claim C9. After \<open>update\<close> is called on a \<open>Line\<close> with a template \<open>t\<close> (whatever the
  printing then does), the template of the line is \<open>t\<close>, its parameters are the
  parameters of this call merged into the empty dictionary, so none of the former
  parameters is left and, the names of keyword arguments being distinct, they are
  exactly the parameters of this call; \<open>text()\<close> then returns \<open>t\<close> itself when these
  parameters are empty and the formatting of \<open>t\<close> with them otherwise.
\<close>

theorem update_with_template_replaces_params:
  assumes "Line_update fmt (Some t) kw l s = (r, l', s')"
  shows "template l' = t
         \<and> kwargs l' = dict_update [] kw
         \<and> (distinct (map fst kw) \<longrightarrow> kwargs l' = kw)
         \<and> Line_text fmt l' = (if kwargs l' = [] then Inr t else fmt t (kwargs l'))
         \<and> line_id l' = line_id l"
proof -
  have l': "l' = l\<lparr>template := t, kwargs := dict_update [] kw\<rparr>"
    using assms by (auto simp: Line_update_def Let_def split: prod.splits)
  moreover have "distinct (map fst kw) \<Longrightarrow> dict_update [] kw = kw"
    using dict_update_distinct [of kw "[]"] by simp
  ultimately show ?thesis by (simp add: Line_text_def)
qed

theorem update_with_template_replaces_params_witness:
  "Line_update format_named (Some ''Bye {who}'') [(''who'', ''Al'')] (snd greeting ! 0) (fst greeting)
     = (Inr (), \<lparr>line_id = 0, template = ''Bye {who}'', kwargs = [(''who'', ''Al'')]\<rparr>,
        snd (snd (Line_update format_named (Some ''Bye {who}'') [(''who'', ''Al'')] (snd greeting ! 0) (fst greeting))))
   \<and> kwargs (snd greeting ! 0) = [(''name'', ''Bob'')]
   \<and> distinct (map fst [(''who'', ''Al'')])
   \<and> Line_text format_named \<lparr>line_id = 0, template = ''Bye {who}'', kwargs = [(''who'', ''Al'')]\<rparr>
        = Inr ''Bye Al''"
proof -
  let ?u = "Line_update format_named (Some ''Bye {who}'') [(''who'', ''Al'')] (snd greeting ! 0) (fst greeting)"
  have h0: "?u = (fst ?u, fst (snd ?u), snd (snd ?u))" by simp
  have r: "fst ?u = Inr ()" by code_simp
  have i: "line_id (snd greeting ! 0) = 0" by code_simp
  have k: "kwargs (snd greeting ! 0) = [(''name'', ''Bob'')]" by code_simp
  have f: "format_named ''Bye {who}'' [(''who'', ''Al'')] = Inr ''Bye Al''" by code_simp
  have d: "distinct (map fst [(''who'', ''Al'')])" by simp
  note th = update_with_template_replaces_params [OF h0]
  from th have t1: "template (fst (snd ?u)) = ''Bye {who}''" by blast
  from th d have t2: "kwargs (fst (snd ?u)) = [(''who'', ''Al'')]" by blast
  from th i have t3: "line_id (fst (snd ?u)) = 0" by simp
  from th have t4: "Line_text format_named (fst (snd ?u))
      = (if kwargs (fst (snd ?u)) = [] then Inr ''Bye {who}''
         else format_named ''Bye {who}'' (kwargs (fst (snd ?u))))" by blast
  have l': "fst (snd ?u) = \<lparr>line_id = 0, template = ''Bye {who}'', kwargs = [(''who'', ''Al'')]\<rparr>"
    using t1 t2 t3 by (cases "fst (snd ?u)") simp
  have "Line_text format_named (fst (snd ?u)) = Inr ''Bye Al''"
    using t4 f by (simp only: t2) simp
  then have tx: "Line_text format_named \<lparr>line_id = 0, template = ''Bye {who}'', kwargs = [(''who'', ''Al'')]\<rparr>
      = Inr ''Bye Al''"
    by (simp only: l')
  have "?u = (Inr (), \<lparr>line_id = 0, template = ''Bye {who}'', kwargs = [(''who'', ''Al'')]\<rparr>, snd (snd ?u))"
    using h0 r l' by metis
  then show ?thesis using k d tx by blast
qed

subsection \<open>Creating a line\<close>

lemma compute_nb_physical_lines_pos:
  "compute_nb_physical_lines s tx = Inr nb \<Longrightarrow> 1 \<le> nb \<and> available_width s \<noteq> 0"
  by (auto simp: compute_nb_physical_lines_def split: if_splits)


lemma LinesSession_line_zero_width:
  "Line_text fmt \<lparr>line_id = length (entries s), template = tmpl, kwargs = kw\<rparr> = Inr tx \<Longrightarrow>
   available_width s = 0 \<Longrightarrow>
   LinesSession_line fmt tmpl kw s = (Inl ZeroDivisionError, s)"
  by (simp add: LinesSession_line_def Let_def compute_nb_physical_lines_def)

lemma LinesSession_line_ok:
  assumes tx: "Line_text fmt \<lparr>line_id = length (entries s), template = tmpl, kwargs = kw\<rparr> = Inr tx"
    and nb: "compute_nb_physical_lines s tx = Inr nb"
  shows "fst (LinesSession_line fmt tmpl kw s)
           = Inr \<lparr>line_id = length (entries s), template = tmpl, kwargs = kw\<rparr>"
    and "entries (snd (LinesSession_line fmt tmpl kw s))
           = entries s @ [\<lparr>line_obj = length (entries s), entry_text = tx,
                            line_number = lines_counter s - 1, nb_physical_lines = nb\<rparr>]"
    and "lines_index (snd (LinesSession_line fmt tmpl kw s))
           = (lines_index s)(length (entries s) \<mapsto> length (entries s))"
    and "lines_counter (snd (LinesSession_line fmt tmpl kw s)) = lines_counter s + nb"
    and "current_line (snd (LinesSession_line fmt tmpl kw s)) = lines_counter s - 1 + nb"
    and "available_width (snd (LinesSession_line fmt tmpl kw s)) = available_width s"
proof -
  let ?entry = "\<lparr>line_obj = length (entries s), entry_text = tx,
                  line_number = lines_counter s - 1, nb_physical_lines = nb\<rparr>"
  let ?s1 = "s\<lparr>lines_index := (lines_index s)(length (entries s) \<mapsto> length (entries s)),
               entries := entries s @ [?entry]\<rparr>"
  let ?s2 = "snd (extend (nb - 1) ?s1)"
  let ?s3 = "snd (print_at_line tx (lines_counter s - 1) ?s2)"
  from nb have pos: "1 \<le> nb" and w: "available_width s \<noteq> 0"
    using compute_nb_physical_lines_pos by blast+
  have w1: "available_width ?s1 \<noteq> 0" using w by simp
  note ex = extend_ok [OF w1, of "nb - 1"]
  have e2: "extend (nb - 1) ?s1 = (Inr (), ?s2)" using ex(1) by (metis prod.collapse)
  have c2: "compute_nb_physical_lines ?s2 tx = Inr nb"
    using nb compute_nb_physical_lines_width [of ?s2 s "tx"] ex(4) by simp
  note pr = print_at_line_ok [OF c2, of "lines_counter s - 1"]
  have p3: "print_at_line tx (lines_counter s - 1) ?s2 = (Inr (), ?s3)"
    using c2 by (rule print_at_line_eq)
  have res: "LinesSession_line fmt tmpl kw s
      = (Inr \<lparr>line_id = length (entries s), template = tmpl, kwargs = kw\<rparr>, ?s3)"
    unfolding LinesSession_line_def Let_def using tx nb
    by simp (subst e2, simp, subst p3, simp)
  show "fst (LinesSession_line fmt tmpl kw s)
           = Inr \<lparr>line_id = length (entries s), template = tmpl, kwargs = kw\<rparr>"
    by (simp add: res)
  show "entries (snd (LinesSession_line fmt tmpl kw s)) = entries s @ [?entry]"
    by (simp add: res pr ex)
  show "lines_index (snd (LinesSession_line fmt tmpl kw s))
           = (lines_index s)(length (entries s) \<mapsto> length (entries s))"
    by (simp add: res pr ex)
  show "lines_counter (snd (LinesSession_line fmt tmpl kw s)) = lines_counter s + nb"
    using pos by (simp add: res pr ex)
  show "current_line (snd (LinesSession_line fmt tmpl kw s)) = lines_counter s - 1 + nb"
    by (simp add: res pr)
  show "available_width (snd (LinesSession_line fmt tmpl kw s)) = available_width s"
    by (simp add: res pr ex)
qed




subsection \<open>The width of the terminal\<close>

text \<open>
  Claim C8, amended. The constructor does not look at the width it obtains: whatever the
  width, zero and negative ones too, it returns a session with that width, one row and no
  entry. With the width zero every computation of a height raises
  \<open>ZeroDivisionError\<close>, so that \<open>line\<close> raises it and leaves the session as it was; with a
  negative width every height is 1.
\<close>

theorem init_keeps_any_width:
  "available_width (LinesSession_init w) = w
   \<and> lines_counter (LinesSession_init w) = 1
   \<and> entries (LinesSession_init w) = []
   \<and> (w = 0 \<longrightarrow>
        compute_nb_physical_lines (LinesSession_init w) tx = Inl ZeroDivisionError
        \<and> LinesSession_line fmt tmpl [] (LinesSession_init w)
            = (Inl ZeroDivisionError, LinesSession_init w))
   \<and> (w < 0 \<longrightarrow> compute_nb_physical_lines (LinesSession_init w) tx = Inr 1)"
proof -
  have neg: "compute_nb_physical_lines (LinesSession_init w) tx = Inr 1" if "w < 0"
  proof -
    have "real (length tx) / real_of_int w \<le> 0"
      using that by (simp add: divide_nonneg_neg)
    then have "\<lceil>real (length tx) / real_of_int w\<rceil> \<le> 0" by (simp add: ceiling_le_iff)
    then show ?thesis
      using that by (simp add: compute_nb_physical_lines_def LinesSession_init_def)
  qed
  have zero: "LinesSession_line fmt tmpl [] (LinesSession_init w)
            = (Inl ZeroDivisionError, LinesSession_init w)" if "w = 0"
    using that
    by (intro LinesSession_line_zero_width [where tx = tmpl])
       (simp_all add: Line_text_def LinesSession_init_def)
  show ?thesis using neg zero
    by (simp add: LinesSession_init_def compute_nb_physical_lines_def)
qed

theorem init_keeps_any_width_witness:
  "available_width (LinesSession_init 0) = 0
   \<and> compute_nb_physical_lines (LinesSession_init 0) ''Hello'' = Inl ZeroDivisionError
   \<and> LinesSession_line format_named ''Hello'' [] (LinesSession_init 0)
       = (Inl ZeroDivisionError, LinesSession_init 0)
   \<and> (- 5 :: int) < 0
   \<and> available_width (LinesSession_init (- 5)) = - 5
   \<and> compute_nb_physical_lines (LinesSession_init (- 5)) ''Hello World'' = Inr 1"
  using init_keeps_any_width [of 0 "''Hello''" format_named "''Hello''"]
        init_keeps_any_width [of "- 5" "''Hello World''" format_named "''Hello''"]
  by simp

theorem init_zero_width_counterexample:
  "available_width (LinesSession_init 0) = 0
   \<and> available_width (LinesSession_init (- 5)) = - 5
   \<and> lines_counter (LinesSession_init 0) = 1
   \<and> entries (LinesSession_init 0) = []"
  by (simp add: LinesSession_init_def)

subsection \<open>A line created after another one has grown\<close>

text \<open>
  Claim C1. On a terminal of 80 columns: a line \<open>a\<close> is created, it is updated to a text
  of 100 characters, which takes two rows, and a second line is created. The first entry
  is on row 0 with height 2 and the second one is put on row 3, not on row 2: the entries
  are not contiguous.
\<close>

theorem line_after_growth_leaves_gap:
  "rows_and_heights (fst (run format_named
       [NewLine ''a'' [], Update 0 (Some (replicate 100 (CHR ''a''))) [], NewLine ''b'' []]
       (new_world 80)))
     = [(0, 2), (3, 1)]
   \<and> \<not> contiguous (entries (fst (run format_named
       [NewLine ''a'' [], Update 0 (Some (replicate 100 (CHR ''a''))) [], NewLine ''b'' []]
       (new_world 80))))"
  by code_simp

text \<open>
  Claim C3. After the three calls above the first line is updated again, to a text of 200
  characters: its height grows from 2 to 3, and the row of the second entry is 3 before
  and 3 after the update, where the claim has it move by one row.
\<close>

theorem growth_after_gap_does_not_shift:
  "rows_and_heights (fst (run format_named
       [NewLine ''a'' [], Update 0 (Some (replicate 100 (CHR ''a''))) [], NewLine ''b'' []]
       (new_world 80)))
     = [(0, 2), (3, 1)]
   \<and> rows_and_heights (fst (run format_named
       [NewLine ''a'' [], Update 0 (Some (replicate 100 (CHR ''a''))) [], NewLine ''b'' [],
        Update 0 (Some (replicate 200 (CHR ''a''))) []]
       (new_world 80)))
     = [(0, 3), (3, 1)]"
  by code_simp

subsection \<open>The cascade of an update\<close>

lemma print_at_line_frame:
  assumes "available_width s \<noteq> 0"
  shows "fst (print_at_line tx r s) = Inr ()"
    and "entries (snd (print_at_line tx r s)) = entries s"
    and "lines_index (snd (print_at_line tx r s)) = lines_index s"
    and "available_width (snd (print_at_line tx r s)) = available_width s"
proof -
  obtain h where h: "compute_nb_physical_lines s tx = Inr h"
    using assms by (simp add: compute_nb_physical_lines_def)
  note ok = print_at_line_ok [OF h, of r]
  show "fst (print_at_line tx r s) = Inr ()" by (rule ok(1))
  show "entries (snd (print_at_line tx r s)) = entries s" by (rule ok(5))
  show "lines_index (snd (print_at_line tx r s)) = lines_index s" by (rule ok(4))
  show "available_width (snd (print_at_line tx r s)) = available_width s" by (rule ok(6))
qed

lemma reflow_Cons_ok:
  assumes "available_width s \<noteq> 0"
  shows "reflow (j # js) r s
           = reflow js (r + nb_physical_lines ((entries s)[j := (entries s ! j)\<lparr>line_number := r\<rparr>] ! j))
               (snd (print_at_line (entry_text ((entries s)[j := (entries s ! j)\<lparr>line_number := r\<rparr>] ! j)) r
                  (s\<lparr>entries := (entries s)[j := (entries s ! j)\<lparr>line_number := r\<rparr>]\<rparr>)))"
proof -
  let ?s1 = "s\<lparr>entries := (entries s)[j := (entries s ! j)\<lparr>line_number := r\<rparr>]\<rparr>"
  let ?p = "print_at_line (entry_text (entries ?s1 ! j)) r ?s1"
  have w1: "available_width ?s1 \<noteq> 0" using assms by simp
  obtain s2 where p: "?p = (Inr (), s2)"
    using print_at_line_frame(1) [OF w1, of "entry_text (entries ?s1 ! j)" r] by (cases ?p) auto
  have "entries (snd ?p) = entries ?s1"
    using print_at_line_frame(2) [OF w1] by blast
  then have e2: "entries s2 = (entries s)[j := (entries s ! j)\<lparr>line_number := r\<rparr>]"
    using p by simp
  have "reflow (j # js) r s = reflow js (r + nb_physical_lines (entries s2 ! j)) s2"
    using p by (simp add: Let_def)
  then show ?thesis using p e2 by simp
qed

lemma reflow_ok:
  assumes "available_width s \<noteq> 0" and "a \<le> length (entries s)"
  shows "fst (reflow [a ..< length (entries s)] r s) = Inr ()
         \<and> entries (snd (reflow [a ..< length (entries s)] r s))
             = take a (entries s) @ laid_out r (drop a (entries s))
         \<and> lines_index (snd (reflow [a ..< length (entries s)] r s)) = lines_index s
         \<and> available_width (snd (reflow [a ..< length (entries s)] r s)) = available_width s"
  using assms
proof (induction "length (entries s) - a" arbitrary: a r s)
  case 0
  then have "a = length (entries s)" by simp
  then show ?case by simp
next
  case (Suc k)
  let ?es = "entries s"
  define e' where "e' = (?es ! a)\<lparr>line_number := r\<rparr>"
  define s1 where "s1 = s\<lparr>entries := ?es[a := e']\<rparr>"
  define s2 where "s2 = snd (print_at_line (entry_text (entries s1 ! a)) r s1)"
  define r' where "r' = r + nb_physical_lines (entries s1 ! a)"
  from Suc.hyps(2) have a: "a < length ?es" by simp
  have w1: "available_width s1 \<noteq> 0" using Suc.prems(1) by (simp add: s1_def)
  note fr = print_at_line_frame [OF w1, of "entry_text (entries s1 ! a)" r, folded s2_def]
  have es2: "entries s2 = ?es[a := e']" using fr(2) by (simp add: s1_def)
  have len: "length (entries s2) = length ?es" using es2 by simp
  have w2: "available_width s2 \<noteq> 0" using fr(4) w1 by simp
  have k: "k = length (entries s2) - Suc a" using Suc.hyps(2) len by simp
  have a2: "Suc a \<le> length (entries s2)" using a len by simp
  note IH = Suc.hyps(1) [OF k w2 a2, of r']
  have upt: "[a ..< length ?es] = a # [Suc a ..< length ?es]"
    using a by (simp add: upt_conv_Cons)
  have "reflow (a # [Suc a ..< length ?es]) r s = reflow [Suc a ..< length ?es] r' s2"
    using reflow_Cons_ok [OF Suc.prems(1), of a "[Suc a ..< length ?es]" r]
    by (simp add: s2_def s1_def e'_def r'_def)
  then have step: "reflow [a ..< length ?es] r s = reflow [Suc a ..< length (entries s2)] r' s2"
    by (simp only: upt len)
  have r'': "r' = r + nb_physical_lines (?es ! a)"
    using a by (simp add: r'_def s1_def e'_def)
  have lay: "take (Suc a) (?es[a := e']) @ laid_out r' (drop (Suc a) (?es[a := e']))
      = take a ?es @ laid_out r (drop a ?es)"
  proof -
    have "drop a ?es = ?es ! a # drop (Suc a) ?es" using a by (simp add: Cons_nth_drop_Suc)
    then have "laid_out r (drop a ?es) = e' # laid_out r' (drop (Suc a) ?es)"
      by (simp add: e'_def r'')
    moreover have "take (Suc a) (?es[a := e']) = take a ?es @ [e']"
      using a by (simp add: take_Suc_conv_app_nth)
    ultimately show ?thesis by simp
  qed
  from IH have i1: "fst (reflow [Suc a ..< length (entries s2)] r' s2) = Inr ()"
    and i2: "entries (snd (reflow [Suc a ..< length (entries s2)] r' s2))
               = take (Suc a) (entries s2) @ laid_out r' (drop (Suc a) (entries s2))"
    and i3: "lines_index (snd (reflow [Suc a ..< length (entries s2)] r' s2)) = lines_index s2"
    and i4: "available_width (snd (reflow [Suc a ..< length (entries s2)] r' s2)) = available_width s2"
    by blast+
  have "entries (snd (reflow [a ..< length ?es] r s)) = take a ?es @ laid_out r (drop a ?es)"
    using i2 lay by (simp only: step es2)
  moreover have "fst (reflow [a ..< length ?es] r s) = Inr ()"
    using i1 by (simp only: step)
  moreover have "lines_index (snd (reflow [a ..< length ?es] r s)) = lines_index s"
    using i3 fr(3) by (simp add: step s1_def)
  moreover have "available_width (snd (reflow [a ..< length ?es] r s)) = available_width s"
    using i4 fr(4) by (simp add: step s1_def)
  ultimately show ?case by blast
qed

lemma laid_out_contiguous:
  "contiguous (e # es) \<Longrightarrow>
   laid_out (line_number e + nb_physical_lines e + d) es = map (shifted d) es"
proof (induction es arbitrary: e)
  case Nil
  show ?case by simp
next
  case (Cons e' es)
  from Cons.prems have r: "line_number e' = line_number e + nb_physical_lines e"
    and c: "contiguous (e' # es)" by simp_all
  have "laid_out (line_number e' + nb_physical_lines e' + d) es = map (shifted d) es"
    using c by (rule Cons.IH)
  then show ?case using r by (simp add: shifted_def add.commute add.left_commute)
qed

lemma print_line_resize:
  assumes idx: "lines_index s (line_id l) = Some i" and i: "i < length (entries s)"
    and tx: "Line_text fmt l = Inr tx'"
    and nb: "compute_nb_physical_lines s tx' = Inr new_nb"
    and ne: "nb_physical_lines (entries s ! i) \<noteq> new_nb"
  shows "fst (print_line fmt l s) = Inr ()"
    and "entries (snd (print_line fmt l s))
           = take i (entries s)
             @ [(entries s ! i)\<lparr>entry_text := tx', nb_physical_lines := new_nb\<rparr>]
             @ laid_out (line_number (entries s ! i) + new_nb) (drop (Suc i) (entries s))"
    and "lines_index (snd (print_line fmt l s)) = lines_index s"
    and "available_width (snd (print_line fmt l s)) = available_width s"
proof -
  let ?es = "entries s"
  define s1 where "s1 = s\<lparr>entries := (entries s)[i := (entries s ! i)\<lparr>entry_text := tx'\<rparr>]\<rparr>"
  define old_nb where "old_nb = nb_physical_lines (entries s1 ! i)"
  define s2 where "s2 = (if old_nb < new_nb then snd (extend (new_nb - old_nb) s1) else s1)"
  define s3 where "s3 = snd (print_at_line tx' (line_number (entries s2 ! i)) s2)"
  define s4 where "s4 = s3\<lparr>entries := (entries s3)[i := (entries s3 ! i)\<lparr>nb_physical_lines := new_nb\<rparr>]\<rparr>"
  define s5 where "s5 = snd (reflow [Suc i ..< length (entries s4)] (line_number (entries s4 ! i) + new_nb) s4)"
  define s6 where "s6 = (if new_nb < old_nb then snd (truncate s5) else s5)"
  have w: "available_width s \<noteq> 0" using nb compute_nb_physical_lines_pos by blast
  have old: "old_nb = nb_physical_lines (?es ! i)" using i by (simp add: old_nb_def s1_def)
  have ne': "old_nb \<noteq> new_nb" using ne old by simp
  have w1: "available_width s1 = available_width s" by (simp add: s1_def)
  have c1: "compute_nb_physical_lines s1 tx' = Inr new_nb"
    using nb compute_nb_physical_lines_width [OF w1] by simp
  have w1': "available_width s1 \<noteq> 0" using w w1 by simp
  note ex = extend_ok [OF w1', of "new_nb - old_nb"]
  have E2: "(if old_nb < new_nb then extend (new_nb - old_nb) s1 else (Inr (), s1)) = (Inr (), s2)"
    using ex(1) by (simp add: s2_def) (metis prod.collapse)
  have f2: "entries s2 = entries s1" "lines_index s2 = lines_index s1"
    "available_width s2 = available_width s1"
    using ex(2,3,4) by (simp_all add: s2_def)
  have w2: "available_width s2 \<noteq> 0" using f2 w1' by simp
  note pr = print_at_line_frame [OF w2, of tx' "line_number (entries s2 ! i)", folded s3_def]
  have E3: "print_at_line tx' (line_number (entries s2 ! i)) s2 = (Inr (), s3)"
    using pr(1) by (simp add: s3_def) (metis prod.collapse)
  have f4: "entries s4 = ?es[i := (?es ! i)\<lparr>entry_text := tx', nb_physical_lines := new_nb\<rparr>]"
    "lines_index s4 = lines_index s" "available_width s4 = available_width s"
    using pr(2,3,4) f2 i by (simp_all add: s4_def s1_def)
  have w4: "available_width s4 \<noteq> 0" using f4 w by simp
  have i4: "Suc i \<le> length (entries s4)" using f4 i by simp
  note rf = reflow_ok [OF w4 i4, of "line_number (entries s4 ! i) + new_nb", folded s5_def]
  have E5: "reflow [Suc i ..< length (entries s4)] (line_number (entries s4 ! i) + new_nb) s4
      = (Inr (), s5)"
    using rf by (simp add: s5_def) (metis prod.collapse)
  have w5: "available_width s5 \<noteq> 0" using rf w4 by simp
  note tr = truncate_ok [OF w5]
  have E6: "(if new_nb < old_nb then truncate s5 else (Inr (), s5)) = (Inr (), s6)"
    using tr(1) by (simp add: s6_def) (metis prod.collapse)
  have f6: "entries s6 = entries s5" "lines_index s6 = lines_index s5"
    "available_width s6 = available_width s5"
    using tr(2,3,4) by (simp_all add: s6_def)
  have res: "print_line fmt l s = (Inr (), s6)"
    unfolding print_line_def Let_def
    by (simp only: idx tx option.case sum.case prod.case s1_def [symmetric] old_nb_def [symmetric]
        c1 E2 E3 s4_def [symmetric] ne' E5 E6 if_True not_False_eq_True)
  have e5: "entries s5 = take i ?es
             @ [(?es ! i)\<lparr>entry_text := tx', nb_physical_lines := new_nb\<rparr>]
             @ laid_out (line_number (?es ! i) + new_nb) (drop (Suc i) ?es)"
  proof -
    have "take (Suc i) (entries s4)
        = take i ?es @ [(?es ! i)\<lparr>entry_text := tx', nb_physical_lines := new_nb\<rparr>]"
      using i by (simp add: f4 take_Suc_conv_app_nth)
    moreover have "drop (Suc i) (entries s4) = drop (Suc i) ?es" by (simp add: f4)
    moreover have "line_number (entries s4 ! i) = line_number (?es ! i)" using i by (simp add: f4)
    ultimately show ?thesis using rf by simp
  qed
  show "fst (print_line fmt l s) = Inr ()" by (simp add: res)
  show "entries (snd (print_line fmt l s))
           = take i ?es @ [(?es ! i)\<lparr>entry_text := tx', nb_physical_lines := new_nb\<rparr>]
             @ laid_out (line_number (?es ! i) + new_nb) (drop (Suc i) ?es)"
    using e5 f6 by (simp add: res)
  show "lines_index (snd (print_line fmt l s)) = lines_index s"
    using rf f4 f6 by (simp add: res)
  show "available_width (snd (print_line fmt l s)) = available_width s"
    using rf f4 f6 by (simp add: res)
qed

text \<open>
  When the entries from the updated one on are contiguous, an update that changes the
  height of its line by \<open>d\<close> moves every later entry by \<open>d\<close> rows, and changes nothing
  else of them.
\<close>

lemma print_line_shifts_contiguous_entries:
  assumes "lines_index s (line_id l) = Some i" and "i < length (entries s)"
    and "Line_text fmt l = Inr tx'"
    and "compute_nb_physical_lines s tx' = Inr new_nb"
    and "nb_physical_lines (entries s ! i) \<noteq> new_nb"
    and "contiguous (drop i (entries s))"
  shows "entries (snd (print_line fmt l s))
           = take i (entries s)
             @ [(entries s ! i)\<lparr>entry_text := tx', nb_physical_lines := new_nb\<rparr>]
             @ map (shifted (new_nb - nb_physical_lines (entries s ! i))) (drop (Suc i) (entries s))"
proof -
  let ?e = "entries s ! i"
  have "drop i (entries s) = ?e # drop (Suc i) (entries s)"
    using assms(2) by (simp add: Cons_nth_drop_Suc)
  then have "contiguous (?e # drop (Suc i) (entries s))" using assms(6) by simp
  from laid_out_contiguous [OF this, of "new_nb - nb_physical_lines ?e"]
  have "laid_out (line_number ?e + new_nb) (drop (Suc i) (entries s))
      = map (shifted (new_nb - nb_physical_lines ?e)) (drop (Suc i) (entries s))"
    by simp
  then show ?thesis using print_line_resize(2) [OF assms(1-5)] by simp
qed

subsection \<open>Lines created one after the other\<close>

lemma contiguous_snoc:
  "contiguous (es @ [e]) \<longleftrightarrow>
     contiguous es \<and> (es \<noteq> [] \<longrightarrow> line_number e = line_number (last es) + nb_physical_lines (last es))"
  by (induction es rule: contiguous.induct) auto

text \<open>
  As long as \<open>lines_counter - 1\<close> is the row where the last entry ends, a new line is put
  right below the last one, and \<open>lines_counter - 1\<close> is again the row where the last entry
  ends.
\<close>

lemma LinesSession_line_keeps_contiguous:
  assumes "Line_text fmt \<lparr>line_id = length (entries s), template = tmpl, kwargs = kw\<rparr> = Inr tx'"
    and "compute_nb_physical_lines s tx' = Inr nb"
    and "contiguous (entries s)"
    and "entries s \<noteq> [] \<longrightarrow>
           lines_counter s - 1 = line_number (last (entries s)) + nb_physical_lines (last (entries s))"
  shows "contiguous (entries (snd (LinesSession_line fmt tmpl kw s)))"
    and "lines_counter (snd (LinesSession_line fmt tmpl kw s)) - 1
           = line_number (last (entries (snd (LinesSession_line fmt tmpl kw s))))
             + nb_physical_lines (last (entries (snd (LinesSession_line fmt tmpl kw s))))"
  using LinesSession_line_ok(2,4) [OF assms(1,2)] assms(3,4)
  by (simp_all add: contiguous_snoc)

subsection \<open>The log only grows\<close>

lemma print_at_line_log:
  assumes "compute_nb_physical_lines s tx' = Inr h"
  shows "\<exists>evs. out (snd (print_at_line tx' r s)) = out s @ evs @ [(r, PrintLn tx')]
           \<and> erased_rows evs = [r .. r + h - 1] \<and> printed evs = []"
proof -
  obtain evs where evs: "out (fold erase_at [r .. r + h - 1] s) = out s @ evs"
    "printed evs = []" "erased_rows evs = [r .. r + h - 1]"
    using fold_erase_at_out by blast
  let ?s1 = "fold erase_at [r .. r + h - 1] s"
  obtain e where e: "out (set_cursor_to_line_number r ?s1) = out ?s1 @ [(current_line ?s1, e)]"
    "e \<noteq> EraseLine" "\<forall>t. e \<noteq> PrintLn t"
    using set_cursor_out by blast
  let ?evs = "evs @ [(current_line ?s1, e)]"
  have "out (snd (print_at_line tx' r s)) = out s @ ?evs @ [(r, PrintLn tx')]"
    using assms evs(1) e(1) by (simp add: print_at_line_def Let_def emit_def)
  moreover have "erased_rows ?evs = [r .. r + h - 1]" "printed ?evs = []"
    using evs(2,3) e(2,3) by (cases e; simp)+
  ultimately show ?thesis by blast
qed

lemma print_at_line_grows_log: "\<exists>evs. out (snd (print_at_line tx' r s)) = out s @ evs"
proof (cases "compute_nb_physical_lines s tx'")
  case (Inl e)
  then show ?thesis by (simp add: print_at_line_def)
next
  case (Inr h)
  from print_at_line_log [OF this, of r] show ?thesis by blast
qed

lemma for_each_grows_log:
  assumes "\<And>x s. \<exists>evs. out (snd (body x s)) = out s @ evs"
  shows "\<exists>evs. out (snd (for_each body xs s)) = out s @ evs"
proof (induction xs arbitrary: s)
  case Nil
  show ?case by simp
next
  case (Cons x xs)
  obtain r s' where b: "body x s = (r, s')" by (cases "body x s")
  obtain evs where evs: "out s' = out s @ evs" using assms [of x s] b by auto
  show ?case
  proof (cases r)
    case (Inl e)
    then show ?thesis using b evs by simp
  next
    case (Inr u)
    obtain evs' where "out (snd (for_each body xs s')) = out s' @ evs'"
      using Cons.IH by blast
    then show ?thesis using b Inr evs by simp
  qed
qed

lemma extend_grows_log: "\<exists>evs. out (snd (extend n s)) = out s @ evs"
  unfolding extend_def by (rule for_each_grows_log) (rule print_at_line_grows_log)

lemma truncate_grows_log: "\<exists>evs. out (snd (truncate s)) = out s @ evs"
proof -
  let ?f = "for_each (print_at_line []) [current_line s .. lines_counter s - 1 - 1] s"
  obtain r s1 where f: "?f = (r, s1)" by (cases ?f)
  have "\<exists>evs. out (snd ?f) = out s @ evs"
    by (rule for_each_grows_log) (rule print_at_line_grows_log)
  then obtain evs where evs: "out s1 = out s @ evs" using f by auto
  show ?thesis
  proof (cases r)
    case (Inl e)
    then show ?thesis using f evs by (simp add: truncate_def Let_def)
  next
    case (Inr u)
    obtain e where "out (set_cursor_to_line_number (current_line s) s1)
        = out s1 @ [(current_line s1, e)]"
      using set_cursor_out by blast
    then show ?thesis using f Inr evs by (simp add: truncate_def Let_def)
  qed
qed

lemma reflow_grows_log: "\<exists>evs. out (snd (reflow js r s)) = out s @ evs"
proof (induction js arbitrary: r s)
  case Nil
  show ?case by simp
next
  case (Cons j js)
  let ?s1 = "s\<lparr>entries := (entries s)[j := (entries s ! j)\<lparr>line_number := r\<rparr>]\<rparr>"
  let ?p = "print_at_line (entry_text (entries ?s1 ! j)) r ?s1"
  obtain res s2 where p: "?p = (res, s2)" by (cases ?p)
  obtain evs where evs: "out s2 = out s @ evs"
    using print_at_line_grows_log [of "entry_text (entries ?s1 ! j)" r ?s1] p by auto
  show ?case
  proof (cases res)
    case (Inl e)
    then show ?thesis using p evs by (simp add: Let_def)
  next
    case (Inr u)
    obtain evs' where "out (snd (reflow js (r + nb_physical_lines (entries s2 ! j)) s2)) = out s2 @ evs'"
      using Cons.IH by blast
    then show ?thesis using p Inr evs by (simp add: Let_def)
  qed
qed

subsection \<open>What the cascade writes\<close>

lemma laid_out_rows_set:
  "(\<forall>e \<in> set es. 0 \<le> nb_physical_lines e) \<Longrightarrow>
   set (concat (map (\<lambda>e. [line_number e .. line_number e + nb_physical_lines e - 1]) (laid_out r es)))
     = {r ..< r + sum_list (map nb_physical_lines es)}"
proof (induction es arbitrary: r)
  case Nil
  show ?case by simp
next
  case (Cons e es)
  have nn: "0 \<le> nb_physical_lines e" and rest: "\<forall>e \<in> set es. 0 \<le> nb_physical_lines e"
    using Cons.prems by simp_all
  have sum: "0 \<le> sum_list (map nb_physical_lines es)"
    using rest by (intro sum_list_nonneg) auto
  have "set (concat (map (\<lambda>e. [line_number e .. line_number e + nb_physical_lines e - 1])
            (laid_out (r + nb_physical_lines e) es)))
      = {r + nb_physical_lines e ..< r + nb_physical_lines e + sum_list (map nb_physical_lines es)}"
    using rest by (rule Cons.IH)
  then show ?case using nn sum by auto
qed

lemma reflow_log:
  assumes "available_width s \<noteq> 0" and "a \<le> length (entries s)"
    and "\<forall>e \<in> set (drop a (entries s)).
           compute_nb_physical_lines s (entry_text e) = Inr (nb_physical_lines e)"
  shows "erased_rows (out (snd (reflow [a ..< length (entries s)] r s)))
           = erased_rows (out s)
             @ concat (map (\<lambda>e. [line_number e .. line_number e + nb_physical_lines e - 1])
                 (laid_out r (drop a (entries s))))
         \<and> printed (out (snd (reflow [a ..< length (entries s)] r s)))
           = printed (out s)
             @ map (\<lambda>e. (line_number e, entry_text e)) (laid_out r (drop a (entries s)))
         \<and> current_line (snd (reflow [a ..< length (entries s)] r s))
           = (if a = length (entries s) then current_line s
              else r + sum_list (map nb_physical_lines (drop a (entries s))))
         \<and> lines_counter s \<le> lines_counter (snd (reflow [a ..< length (entries s)] r s))"
  using assms
proof (induction "length (entries s) - a" arbitrary: a r s)
  case 0
  then have "a = length (entries s)" by simp
  then show ?case by simp
next
  case (Suc k)
  let ?es = "entries s"
  define e' where "e' = (?es ! a)\<lparr>line_number := r\<rparr>"
  define s1 where "s1 = s\<lparr>entries := ?es[a := e']\<rparr>"
  define s2 where "s2 = snd (print_at_line (entry_text (entries s1 ! a)) r s1)"
  define r' where "r' = r + nb_physical_lines (entries s1 ! a)"
  from Suc.hyps(2) have a: "a < length ?es" by simp
  have da: "drop a ?es = ?es ! a # drop (Suc a) ?es" using a by (simp add: Cons_nth_drop_Suc)
  have ea: "entries s1 ! a = e'" using a by (simp add: s1_def)
  have w1: "available_width s1 = available_width s" by (simp add: s1_def)
  have w1': "available_width s1 \<noteq> 0" using Suc.prems(1) w1 by simp
  have ca: "compute_nb_physical_lines s (entry_text (?es ! a)) = Inr (nb_physical_lines (?es ! a))"
    using Suc.prems(3) da by (metis list.set_intros(1))
  have c1: "compute_nb_physical_lines s1 (entry_text (entries s1 ! a)) = Inr (nb_physical_lines (?es ! a))"
    using ca compute_nb_physical_lines_width [OF w1] by (simp add: ea e'_def)
  note ok = print_at_line_ok [OF c1, of r, folded s2_def]
  have es2: "entries s2 = ?es[a := e']" using ok(5) by (simp add: s1_def)
  have len: "length (entries s2) = length ?es" using es2 by simp
  have w2: "available_width s2 = available_width s" using ok(6) w1 by simp
  have w2': "available_width s2 \<noteq> 0" using w2 Suc.prems(1) by simp
  have k: "k = length (entries s2) - Suc a" using Suc.hyps(2) len by simp
  have a2: "Suc a \<le> length (entries s2)" using a len by simp
  have d2: "drop (Suc a) (entries s2) = drop (Suc a) ?es" by (simp add: es2)
  have cons2: "\<forall>e \<in> set (drop (Suc a) (entries s2)).
      compute_nb_physical_lines s2 (entry_text e) = Inr (nb_physical_lines e)"
    using Suc.prems(3) da compute_nb_physical_lines_width [OF w2] by (simp add: d2)
  note IH = Suc.hyps(1) [OF k w2' a2 cons2, of r', unfolded d2 len]
  have r'': "r' = r + nb_physical_lines (?es ! a)" by (simp add: r'_def ea e'_def)
  have upt: "[a ..< length ?es] = a # [Suc a ..< length ?es]"
    using a by (simp add: upt_conv_Cons)
  have "reflow (a # [Suc a ..< length ?es]) r s = reflow [Suc a ..< length ?es] r' s2"
    using reflow_Cons_ok [OF Suc.prems(1), of a "[Suc a ..< length ?es]" r]
    by (simp add: s2_def s1_def e'_def r'_def)
  then have step: "reflow [a ..< length ?es] r s = reflow [Suc a ..< length ?es] r' s2"
    by (simp only: upt)
  have lay: "laid_out r (drop a ?es) = e' # laid_out r' (drop (Suc a) ?es)"
    by (simp add: da e'_def r'')
  have o2: "erased_rows (out s2) = erased_rows (out s) @ [r .. r + nb_physical_lines (?es ! a) - 1]"
    "printed (out s2) = printed (out s) @ [(r, entry_text (?es ! a))]"
    "current_line s2 = r + nb_physical_lines (?es ! a)"
    "lines_counter s \<le> lines_counter s2"
    using ok(7,8,3,2) a by (simp_all add: s1_def e'_def)
  from IH have i1: "erased_rows (out (snd (reflow [Suc a ..< length ?es] r' s2)))
        = erased_rows (out s2)
          @ concat (map (\<lambda>e. [line_number e .. line_number e + nb_physical_lines e - 1])
              (laid_out r' (drop (Suc a) ?es)))"
    and i2: "printed (out (snd (reflow [Suc a ..< length ?es] r' s2)))
        = printed (out s2) @ map (\<lambda>e. (line_number e, entry_text e)) (laid_out r' (drop (Suc a) ?es))"
    and i3: "current_line (snd (reflow [Suc a ..< length ?es] r' s2))
        = (if Suc a = length ?es then current_line s2
           else r' + sum_list (map nb_physical_lines (drop (Suc a) ?es)))"
    and i4: "lines_counter s2 \<le> lines_counter (snd (reflow [Suc a ..< length ?es] r' s2))"
    by blast+
  have "erased_rows (out (snd (reflow [a ..< length ?es] r s)))
      = erased_rows (out s)
        @ concat (map (\<lambda>e. [line_number e .. line_number e + nb_physical_lines e - 1])
            (laid_out r (drop a ?es)))"
    using i1 o2(1) by (simp add: step lay e'_def)
  moreover have "printed (out (snd (reflow [a ..< length ?es] r s)))
      = printed (out s) @ map (\<lambda>e. (line_number e, entry_text e)) (laid_out r (drop a ?es))"
    using i2 o2(2) by (simp add: step lay e'_def)
  moreover have "current_line (snd (reflow [a ..< length ?es] r s))
      = (if a = length ?es then current_line s
         else r + sum_list (map nb_physical_lines (drop a ?es)))"
  proof (cases "Suc a = length ?es")
    case True
    then have "drop (Suc a) ?es = []" by simp
    then show ?thesis using i3 o2(3) a True by (simp add: step da)
  next
    case False
    then show ?thesis using i3 a by (simp add: step da r'')
  qed
  moreover have "lines_counter s \<le> lines_counter (snd (reflow [a ..< length ?es] r s))"
    using i4 o2(4) by (simp add: step)
  ultimately show ?case by blast
qed

subsection \<open>The log of an update that changes the height\<close>

lemma log_segment:
  assumes "out s' = out s @ evs"
  shows "erased_rows (out s') = erased_rows (out s) @ X \<Longrightarrow> erased_rows evs = X"
    and "printed (out s') = printed (out s) @ Y \<Longrightarrow> printed evs = Y"
  using assms by simp_all

lemma print_line_log:
  assumes idx: "lines_index s (line_id l) = Some i" and i: "i < length (entries s)"
    and tx: "Line_text fmt l = Inr tx'"
    and nb: "compute_nb_physical_lines s tx' = Inr new_nb"
    and ne: "nb_physical_lines (entries s ! i) \<noteq> new_nb"
    and cons: "\<forall>e \<in> set (drop (Suc i) (entries s)).
                 compute_nb_physical_lines s (entry_text e) = Inr (nb_physical_lines e)"
    and lc: "line_number (entries s ! i) + nb_physical_lines (entries s ! i) < lines_counter s"
  shows "\<exists>pre evs casc trunc.
           print_line fmt l s = (Inr (), snd (print_line fmt l s))
         \<and> out (snd (print_line fmt l s))
             = out s @ pre @ evs @ [(line_number (entries s ! i), PrintLn tx')] @ casc @ trunc
         \<and> (new_nb < nb_physical_lines (entries s ! i) \<longrightarrow> pre = [])
         \<and> (nb_physical_lines (entries s ! i) < new_nb \<longrightarrow>
               erased_rows pre
                 = [lines_counter s - 1 .. lines_counter s + (new_nb - nb_physical_lines (entries s ! i)) - 1]
               \<and> printed pre = map (\<lambda>r. (r, [])) (erased_rows pre))
         \<and> erased_rows evs = [line_number (entries s ! i) .. line_number (entries s ! i) + new_nb - 1]
         \<and> printed evs = []
         \<and> printed casc
             = map (\<lambda>e. (line_number e, entry_text e))
                 (laid_out (line_number (entries s ! i) + new_nb) (drop (Suc i) (entries s)))
         \<and> (nb_physical_lines (entries s ! i) < new_nb \<longrightarrow> trunc = [])
         \<and> (new_nb < nb_physical_lines (entries s ! i) \<longrightarrow>
               set [line_number (entries s ! i) + new_nb
                      .. line_number (entries s ! i) + nb_physical_lines (entries s ! i) - 1]
                 \<subseteq> set (erased_rows casc) \<union> set (erased_rows trunc)
               \<and> printed trunc = map (\<lambda>r. (r, [])) (erased_rows trunc))"
proof -
  let ?es = "entries s"
  let ?row = "line_number (?es ! i)"
  let ?old = "nb_physical_lines (?es ! i)"
  define s1 where "s1 = s\<lparr>entries := (entries s)[i := (entries s ! i)\<lparr>entry_text := tx'\<rparr>]\<rparr>"
  define old_nb where "old_nb = nb_physical_lines (entries s1 ! i)"
  define s2 where "s2 = (if old_nb < new_nb then snd (extend (new_nb - old_nb) s1) else s1)"
  define s3 where "s3 = snd (print_at_line tx' (line_number (entries s2 ! i)) s2)"
  define s4 where "s4 = s3\<lparr>entries := (entries s3)[i := (entries s3 ! i)\<lparr>nb_physical_lines := new_nb\<rparr>]\<rparr>"
  define s5 where "s5 = snd (reflow [Suc i ..< length (entries s4)] (line_number (entries s4 ! i) + new_nb) s4)"
  define s6 where "s6 = (if new_nb < old_nb then snd (truncate s5) else s5)"
  have w: "available_width s \<noteq> 0" and pos: "1 \<le> new_nb"
    using nb compute_nb_physical_lines_pos by blast+
  have old: "old_nb = ?old" using i by (simp add: old_nb_def s1_def)
  have ne': "old_nb \<noteq> new_nb" using ne old by simp
  have w1: "available_width s1 = available_width s" by (simp add: s1_def)
  have c1: "compute_nb_physical_lines s1 tx' = Inr new_nb"
    using nb compute_nb_physical_lines_width [OF w1] by simp
  have w1': "available_width s1 \<noteq> 0" using w w1 by simp
  have o1: "out s1 = out s" "lines_counter s1 = lines_counter s" by (simp_all add: s1_def)
  note ex = extend_ok [OF w1', of "new_nb - old_nb"]
  have E2: "(if old_nb < new_nb then extend (new_nb - old_nb) s1 else (Inr (), s1)) = (Inr (), s2)"
    using ex(1) by (simp add: s2_def) (metis prod.collapse)
  have f2: "entries s2 = entries s1" "lines_index s2 = lines_index s1"
    "available_width s2 = available_width s1"
    using ex(2,3,4) by (simp_all add: s2_def)
  have w2: "available_width s2 \<noteq> 0" using f2 w1' by simp
  have c2: "compute_nb_physical_lines s2 tx' = Inr new_nb"
    using c1 compute_nb_physical_lines_width [OF f2(3)] by simp
  have row2: "line_number (entries s2 ! i) = ?row" using i by (simp add: f2 s1_def)
  note pr = print_at_line_frame [OF w2, of tx' "line_number (entries s2 ! i)", folded s3_def]
  note pk = print_at_line_ok [OF c2, of "line_number (entries s2 ! i)", folded s3_def, unfolded row2]
  have E3: "print_at_line tx' (line_number (entries s2 ! i)) s2 = (Inr (), s3)"
    using pr(1) by (simp add: s3_def) (metis prod.collapse)
  have f4: "entries s4 = ?es[i := (?es ! i)\<lparr>entry_text := tx', nb_physical_lines := new_nb\<rparr>]"
    "lines_index s4 = lines_index s" "available_width s4 = available_width s"
    using pr(2,3,4) f2 i by (simp_all add: s4_def s1_def)
  have o4: "out s4 = out s3" "current_line s4 = ?row + new_nb" "lines_counter s2 \<le> lines_counter s4"
    using pk(2,3) by (simp_all add: s4_def)
  have w4: "available_width s4 \<noteq> 0" using f4 w by simp
  have i4: "Suc i \<le> length (entries s4)" using f4 i by simp
  have len4: "length (entries s4) = length ?es" by (simp add: f4)
  have d4: "drop (Suc i) (entries s4) = drop (Suc i) ?es" by (simp add: f4)
  have row4: "line_number (entries s4 ! i) = ?row" using i by (simp add: f4)
  have cons4: "\<forall>e \<in> set (drop (Suc i) (entries s4)).
      compute_nb_physical_lines s4 (entry_text e) = Inr (nb_physical_lines e)"
    using cons compute_nb_physical_lines_width [OF f4(3)] by (simp add: d4)
  note rf = reflow_ok [OF w4 i4, of "line_number (entries s4 ! i) + new_nb", folded s5_def]
  note rl = reflow_log [OF w4 i4 cons4, of "line_number (entries s4 ! i) + new_nb",
      folded s5_def, unfolded d4 row4 len4]
  have E5: "reflow [Suc i ..< length (entries s4)] (line_number (entries s4 ! i) + new_nb) s4
      = (Inr (), s5)"
    using rf by (simp add: s5_def) (metis prod.collapse)
  have w5: "available_width s5 \<noteq> 0" using rf w4 by simp
  note tr = truncate_ok [OF w5]
  have E6: "(if new_nb < old_nb then truncate s5 else (Inr (), s5)) = (Inr (), s6)"
    using tr(1) by (simp add: s6_def) (metis prod.collapse)
  have res: "print_line fmt l s = (Inr (), s6)"
    unfolding print_line_def Let_def
    by (simp only: idx tx option.case sum.case prod.case s1_def [symmetric] old_nb_def [symmetric]
        c1 E2 E3 s4_def [symmetric] ne' E5 E6 if_True not_False_eq_True)
  \<comment> \<open>the segments of the log\<close>
  obtain pre where pre: "out s2 = out s @ pre" "new_nb < old_nb \<longrightarrow> pre = []"
  proof (cases "old_nb < new_nb")
    case True
    obtain evs where "out (snd (extend (new_nb - old_nb) s1)) = out s1 @ evs"
      using extend_grows_log by blast
    then have "out s2 = out s @ evs" using True o1 by (simp add: s2_def)
    then show ?thesis using that True by simp
  next
    case False
    then have "out s2 = out s @ []" using o1 by (simp add: s2_def)
    then show ?thesis using that by blast
  qed
  have pre_grow: "erased_rows pre = [lines_counter s - 1 .. lines_counter s + (new_nb - old_nb) - 1]
      \<and> printed pre = map (\<lambda>r. (r, [])) (erased_rows pre)" if g: "old_nb < new_nb"
  proof -
    have s2: "s2 = snd (extend (new_nb - old_nb) s1)" using g by (simp add: s2_def)
    have p1: "out s2 = out s1 @ pre" using pre(1) o1 by simp
    have "erased_rows pre = [lines_counter s1 - 1 .. lines_counter s1 + (new_nb - old_nb) - 1]"
      using log_segment(1) [OF p1] ex(7) by (simp only: s2)
    moreover have "printed pre
        = map (\<lambda>r. (r, [])) [lines_counter s1 - 1 .. lines_counter s1 + (new_nb - old_nb) - 1]"
      using log_segment(2) [OF p1] ex(8) by (simp only: s2)
    ultimately show ?thesis using o1 by simp
  qed
  obtain evs where evs: "out s3 = out s2 @ evs @ [(?row, PrintLn tx')]"
    "erased_rows evs = [?row .. ?row + new_nb - 1]" "printed evs = []"
    using print_at_line_log [OF c2, of "line_number (entries s2 ! i)", folded s3_def, unfolded row2]
    by blast
  obtain casc where casc: "out s5 = out s4 @ casc"
    using reflow_grows_log [of "[Suc i ..< length (entries s4)]" "line_number (entries s4 ! i) + new_nb" s4]
    by (auto simp: s5_def)
  note rl1 = rl [THEN conjunct1] and rl2 = rl [THEN conjunct2, THEN conjunct1]
    and rl3 = rl [THEN conjunct2, THEN conjunct2, THEN conjunct1]
    and rl4 = rl [THEN conjunct2, THEN conjunct2, THEN conjunct2]
  have casc_e: "erased_rows casc
      = concat (map (\<lambda>e. [line_number e .. line_number e + nb_physical_lines e - 1])
          (laid_out (?row + new_nb) (drop (Suc i) ?es)))"
    by (rule log_segment(1) [OF casc rl1])
  have casc_p: "printed casc
      = map (\<lambda>e. (line_number e, entry_text e)) (laid_out (?row + new_nb) (drop (Suc i) ?es))"
    by (rule log_segment(2) [OF casc rl2])
  obtain trunc where trunc: "out s6 = out s5 @ trunc" "old_nb < new_nb \<longrightarrow> trunc = []"
  proof (cases "new_nb < old_nb")
    case True
    obtain t where "out (snd (truncate s5)) = out s5 @ t" using truncate_grows_log by blast
    then have "out s6 = out s5 @ t" using True by (simp add: s6_def)
    then show ?thesis using that True by simp
  next
    case False
    then have "out s6 = out s5 @ []" by (simp add: s6_def)
    then show ?thesis using that by blast
  qed
  have shrink: "set [?row + new_nb .. ?row + ?old - 1] \<subseteq> set (erased_rows casc) \<union> set (erased_rows trunc)
      \<and> printed trunc = map (\<lambda>r. (r, [])) (erased_rows trunc)" if sh: "new_nb < old_nb"
  proof -
    have s6: "s6 = snd (truncate s5)" using sh by (simp add: s6_def)
    have t5: "out (snd (truncate s5)) = out s5 @ trunc" using trunc(1) by (simp only: s6)
    have te: "erased_rows trunc = [current_line s5 .. lines_counter s5 - 2]"
      by (rule log_segment(1) [OF t5 tr(7)])
    have tp: "printed trunc = map (\<lambda>r. (r, [])) [current_line s5 .. lines_counter s5 - 2]"
      by (rule log_segment(2) [OF t5 tr(8)])
    have nn: "\<forall>e \<in> set (drop (Suc i) ?es). 0 \<le> nb_physical_lines e"
    proof
      fix e assume "e \<in> set (drop (Suc i) ?es)"
      then have "compute_nb_physical_lines s (entry_text e) = Inr (nb_physical_lines e)"
        using cons by blast
      from compute_nb_physical_lines_pos [OF this] show "0 \<le> nb_physical_lines e" by simp
    qed
    let ?sum = "sum_list (map nb_physical_lines (drop (Suc i) ?es))"
    have ce: "set (erased_rows casc) = {?row + new_nb ..< ?row + new_nb + ?sum}"
      using laid_out_rows_set [OF nn, of "?row + new_nb"] by (simp only: casc_e)
    have cur5: "current_line s5 = ?row + new_nb + ?sum"
    proof (cases "Suc i = length ?es")
      case True
      then have "drop (Suc i) ?es = []" by simp
      then show ?thesis using rl3 True o4(2) by simp
    next
      case False
      then show ?thesis using rl3 by simp
    qed
    have s2: "s2 = s1" using sh by (simp add: s2_def)
    have "lines_counter s \<le> lines_counter s4" using o4(3) o1(2) by (simp add: s2)
    moreover have "lines_counter s4 \<le> lines_counter s5" by (rule rl4)
    ultimately have lc5: "?row + ?old < lines_counter s5" using lc by linarith
    have "set [?row + new_nb .. ?row + ?old - 1] \<subseteq> set (erased_rows casc) \<union> set (erased_rows trunc)"
    proof
      fix x assume "x \<in> set [?row + new_nb .. ?row + ?old - 1]"
      then have x: "?row + new_nb \<le> x" "x \<le> ?row + ?old - 1" by simp_all
      show "x \<in> set (erased_rows casc) \<union> set (erased_rows trunc)"
      proof (cases "x < ?row + new_nb + ?sum")
        case True
        then have "x \<in> set (erased_rows casc)" using x(1) by (simp only: ce atLeastLessThan_iff)
        then show ?thesis by (rule UnI1)
      next
        case False
        then have "current_line s5 \<le> x" "x \<le> lines_counter s5 - 2"
          using x(2) lc5 cur5 by linarith+
        then have "x \<in> set (erased_rows trunc)" by (simp add: te)
        then show ?thesis by (rule UnI2)
      qed
    qed
    moreover have "printed trunc = map (\<lambda>r. (r, [])) (erased_rows trunc)"
      by (simp only: te tp)
    ultimately show ?thesis by (rule conjI)
  qed
  have o6: "out s6 = out s @ pre @ evs @ [(?row, PrintLn tx')] @ casc @ trunc"
    using pre(1) evs(1) o4(1) casc trunc(1) by simp
  have R1: "print_line fmt l s = (Inr (), snd (print_line fmt l s))" by (simp add: res)
  have R2: "out (snd (print_line fmt l s))
      = out s @ pre @ evs @ [(?row, PrintLn tx')] @ casc @ trunc"
    using o6 by (simp only: res snd_conv)
  note P = pre(2) [unfolded old] pre_grow [unfolded old] trunc(2) [unfolded old] shrink [unfolded old]
  have "print_line fmt l s = (Inr (), snd (print_line fmt l s))
         \<and> out (snd (print_line fmt l s))
             = out s @ pre @ evs @ [(?row, PrintLn tx')] @ casc @ trunc
         \<and> (new_nb < ?old \<longrightarrow> pre = [])
         \<and> (?old < new_nb \<longrightarrow>
               erased_rows pre = [lines_counter s - 1 .. lines_counter s + (new_nb - ?old) - 1]
               \<and> printed pre = map (\<lambda>r. (r, [])) (erased_rows pre))
         \<and> erased_rows evs = [?row .. ?row + new_nb - 1]
         \<and> printed evs = []
         \<and> printed casc
             = map (\<lambda>e. (line_number e, entry_text e)) (laid_out (?row + new_nb) (drop (Suc i) ?es))
         \<and> (?old < new_nb \<longrightarrow> trunc = [])
         \<and> (new_nb < ?old \<longrightarrow>
               set [?row + new_nb .. ?row + ?old - 1]
                 \<subseteq> set (erased_rows casc) \<union> set (erased_rows trunc)
               \<and> printed trunc = map (\<lambda>r. (r, [])) (erased_rows trunc))"
    by (intro conjI impI P [rule_format] R1 R2 evs(2,3) casc_p)
  then show ?thesis by (intro exI)
qed

subsection \<open>The print step of an update and what follows it\<close>

text \<open>
  Claim C7, amended. When \<open>update\<close> reprints a registered line whose height changes, the
  print step first erases as many rows as the new height, starting at the row of the
  entry, and then writes the new text at that row. When the line has shrunk, nothing is
  written before the print step, and the rows that only the old text occupied are not
  erased by the print step: they are erased afterwards, by the reprint of the following
  entries and by \<open>_truncate\<close>, which writes blank lines only. (The entries that follow
  have the height of their text, and the old end of the line lies on the canvas, as
  \<open>line\<close> and \<open>update\<close> leave them.)
\<close>

theorem update_erases_new_rows_then_cleans_up:
  assumes "Line_update fmt tmpl kw l s = (res, l', s')"
    and "lines_index s (line_id l) = Some i" and "i < length (entries s)"
    and "Line_text fmt l' = Inr tx'"
    and "compute_nb_physical_lines s tx' = Inr new_nb"
    and "nb_physical_lines (entries s ! i) \<noteq> new_nb"
    and "\<forall>e \<in> set (drop (Suc i) (entries s)).
           compute_nb_physical_lines s (entry_text e) = Inr (nb_physical_lines e)"
    and "line_number (entries s ! i) + nb_physical_lines (entries s ! i) < lines_counter s"
  shows "res = Inr ()
         \<and> (\<exists>pre evs casc trunc.
               out s' = out s @ pre @ evs @ [(line_number (entries s ! i), PrintLn tx')] @ casc @ trunc
             \<and> (new_nb < nb_physical_lines (entries s ! i) \<longrightarrow> pre = [])
             \<and> (nb_physical_lines (entries s ! i) < new_nb \<longrightarrow>
                   erased_rows pre
                     = [lines_counter s - 1
                          .. lines_counter s + (new_nb - nb_physical_lines (entries s ! i)) - 1]
                   \<and> printed pre = map (\<lambda>r. (r, [])) (erased_rows pre))
             \<and> erased_rows evs = [line_number (entries s ! i) .. line_number (entries s ! i) + new_nb - 1]
             \<and> printed evs = []
             \<and> printed casc
                 = map (\<lambda>e. (line_number e, entry_text e))
                     (laid_out (line_number (entries s ! i) + new_nb) (drop (Suc i) (entries s)))
             \<and> (nb_physical_lines (entries s ! i) < new_nb \<longrightarrow> trunc = [])
             \<and> (new_nb < nb_physical_lines (entries s ! i) \<longrightarrow>
                   set [line_number (entries s ! i) + new_nb
                          .. line_number (entries s ! i) + nb_physical_lines (entries s ! i) - 1]
                     \<subseteq> set (erased_rows casc) \<union> set (erased_rows trunc)
                   \<and> printed trunc = map (\<lambda>r. (r, [])) (erased_rows trunc)))"
proof -
  have l': "l' = (case tmpl of None \<Rightarrow> l | Some t \<Rightarrow> l\<lparr>template := t, kwargs := []\<rparr>)
               \<lparr>kwargs := dict_update (kwargs (case tmpl of None \<Rightarrow> l | Some t \<Rightarrow> l\<lparr>template := t, kwargs := []\<rparr>)) kw\<rparr>"
    and rs: "print_line fmt l' s = (res, s')"
    using assms(1) by (auto simp: Line_update_def Let_def split: prod.splits)
  have id: "line_id l' = line_id l" using l' by (cases tmpl) simp_all
  have idx: "lines_index s (line_id l') = Some i" using assms(2) id by simp
  from print_line_log [OF idx assms(3-8)] obtain pre evs casc trunc where
    p: "print_line fmt l' s = (Inr (), snd (print_line fmt l' s))"
    and rest: "out (snd (print_line fmt l' s))
             = out s @ pre @ evs @ [(line_number (entries s ! i), PrintLn tx')] @ casc @ trunc
         \<and> (new_nb < nb_physical_lines (entries s ! i) \<longrightarrow> pre = [])
         \<and> (nb_physical_lines (entries s ! i) < new_nb \<longrightarrow>
               erased_rows pre
                 = [lines_counter s - 1 .. lines_counter s + (new_nb - nb_physical_lines (entries s ! i)) - 1]
               \<and> printed pre = map (\<lambda>r. (r, [])) (erased_rows pre))
         \<and> erased_rows evs = [line_number (entries s ! i) .. line_number (entries s ! i) + new_nb - 1]
         \<and> printed evs = []
         \<and> printed casc
             = map (\<lambda>e. (line_number e, entry_text e))
                 (laid_out (line_number (entries s ! i) + new_nb) (drop (Suc i) (entries s)))
         \<and> (nb_physical_lines (entries s ! i) < new_nb \<longrightarrow> trunc = [])
         \<and> (new_nb < nb_physical_lines (entries s ! i) \<longrightarrow>
               set [line_number (entries s ! i) + new_nb
                      .. line_number (entries s ! i) + nb_physical_lines (entries s ! i) - 1]
                 \<subseteq> set (erased_rows casc) \<union> set (erased_rows trunc)
               \<and> printed trunc = map (\<lambda>r. (r, [])) (erased_rows trunc))"
    by blast
  have r: "res = Inr ()" and s': "snd (print_line fmt l' s) = s'"
    using rs p by simp_all
  from rest have "\<exists>pre evs casc trunc.
        out s' = out s @ pre @ evs @ [(line_number (entries s ! i), PrintLn tx')] @ casc @ trunc
         \<and> (new_nb < nb_physical_lines (entries s ! i) \<longrightarrow> pre = [])
         \<and> (nb_physical_lines (entries s ! i) < new_nb \<longrightarrow>
               erased_rows pre
                 = [lines_counter s - 1 .. lines_counter s + (new_nb - nb_physical_lines (entries s ! i)) - 1]
               \<and> printed pre = map (\<lambda>r. (r, [])) (erased_rows pre))
         \<and> erased_rows evs = [line_number (entries s ! i) .. line_number (entries s ! i) + new_nb - 1]
         \<and> printed evs = []
         \<and> printed casc
             = map (\<lambda>e. (line_number e, entry_text e))
                 (laid_out (line_number (entries s ! i) + new_nb) (drop (Suc i) (entries s)))
         \<and> (nb_physical_lines (entries s ! i) < new_nb \<longrightarrow> trunc = [])
         \<and> (new_nb < nb_physical_lines (entries s ! i) \<longrightarrow>
               set [line_number (entries s ! i) + new_nb
                      .. line_number (entries s ! i) + nb_physical_lines (entries s ! i) - 1]
                 \<subseteq> set (erased_rows casc) \<union> set (erased_rows trunc)
               \<and> printed trunc = map (\<lambda>r. (r, [])) (erased_rows trunc))"
    unfolding s' by (intro exI)
  with r show ?thesis by (rule conjI)
qed

theorem update_erases_new_rows_then_cleans_up_witness:
  "lines_index (fst long_and_world) (line_id (snd long_and_world ! 0)) = Some 0
   \<and> 0 < length (entries (fst long_and_world))
   \<and> Line_text format_named
        (fst (snd (Line_update format_named (Some ''Hello'') [] (snd long_and_world ! 0) (fst long_and_world))))
        = Inr ''Hello''
   \<and> compute_nb_physical_lines (fst long_and_world) ''Hello'' = Inr 1
   \<and> nb_physical_lines (entries (fst long_and_world) ! 0) = 3
   \<and> drop (Suc 0) (entries (fst long_and_world))
        = [\<lparr>line_obj = 1, entry_text = ''World'', line_number = 3, nb_physical_lines = 1\<rparr>]
   \<and> compute_nb_physical_lines (fst long_and_world) ''World'' = Inr 1
   \<and> line_number (entries (fst long_and_world) ! 0) + nb_physical_lines (entries (fst long_and_world) ! 0)
        < lines_counter (fst long_and_world)
   \<and> fst (Line_update format_named (Some ''Hello'') [] (snd long_and_world ! 0) (fst long_and_world)) = Inr ()
   \<and> (\<exists>pre evs casc trunc.
         out (snd (snd (Line_update format_named (Some ''Hello'') [] (snd long_and_world ! 0) (fst long_and_world))))
           = out (fst long_and_world) @ pre @ evs @ [(0, PrintLn ''Hello'')] @ casc @ trunc
         \<and> pre = []
         \<and> erased_rows evs = [0]
         \<and> printed evs = []
         \<and> printed casc = [(1, ''World'')]
         \<and> set [1, 2] \<subseteq> set (erased_rows casc) \<union> set (erased_rows trunc)
         \<and> printed trunc = map (\<lambda>r. (r, [])) (erased_rows trunc))"
proof -
  let ?s = "fst long_and_world" and ?l = "snd long_and_world ! 0"
  let ?u = "Line_update format_named (Some ''Hello'') [] ?l ?s"
  have h0: "?u = (fst ?u, fst (snd ?u), snd (snd ?u))" by simp
  have h1: "lines_index ?s (line_id ?l) = Some 0" by code_simp
  have h2: "0 < length (entries ?s)" by code_simp
  have h3: "Line_text format_named (fst (snd ?u)) = Inr ''Hello''" by code_simp
  have h4: "compute_nb_physical_lines ?s ''Hello'' = Inr 1" by code_simp
  have old: "nb_physical_lines (entries ?s ! 0) = 3" by code_simp
  have row: "line_number (entries ?s ! 0) = 0" by code_simp
  have h5: "nb_physical_lines (entries ?s ! 0) \<noteq> 1" using old by simp
  have h6: "\<forall>e \<in> set (drop (Suc 0) (entries ?s)).
      compute_nb_physical_lines ?s (entry_text e) = Inr (nb_physical_lines e)"
    by code_simp
  have h7: "line_number (entries ?s ! 0) + nb_physical_lines (entries ?s ! 0) < lines_counter ?s"
    by code_simp
  have lay: "map (\<lambda>e. (line_number e, entry_text e)) (laid_out (0 + 1) (drop (Suc 0) (entries ?s)))
      = [(1, ''World'')]"
    by code_simp
  have u1: "[0 .. 0 + 1 - 1] = [0 :: int]" and u2: "[0 + 1 .. 0 + 3 - 1] = [1, 2 :: int]"
    by code_simp+
  note th = update_erases_new_rows_then_cleans_up [OF h0 h1 h2 h3 h4 h5 h6 h7,
      unfolded old row lay u1 u2]
  have d: "drop (Suc 0) (entries ?s)
      = [\<lparr>line_obj = 1, entry_text = ''World'', line_number = 3, nb_physical_lines = 1\<rparr>]"
    and w: "compute_nb_physical_lines ?s ''World'' = Inr 1"
    by code_simp+
  show ?thesis
    using th h1 h2 h3 h4 old d w h7 by simp
qed

theorem print_step_shrinking_counterexample:
  "rows_and_heights (fst (run format_named [NewLine (replicate 200 (CHR ''a'')) []] (new_world 80)))
     = [(0, 3)]
   \<and> drop (length (out (fst (run format_named [NewLine (replicate 200 (CHR ''a'')) []] (new_world 80)))))
        (out (fst (run format_named
                [NewLine (replicate 200 (CHR ''a'')) [], Update 0 (Some ''Hello'') []] (new_world 80))))
     = [(3, CursorUp 3), (0, EraseLine), (0, CursorColumn0), (0, PrintLn ''Hello''),
        (1, CursorColumn0), (1, EraseLine), (1, CursorColumn0), (1, PrintLn []),
        (2, CursorColumn0), (2, EraseLine), (2, CursorColumn0), (2, PrintLn []),
        (3, CursorUp 2)]"
  by code_simp

end
